theory Spec2Isabelle
  imports Complex_Main "HOL-Library.AList" "HOL-Library.Sublist"
begin

section \<open>Rate limiter (app/utils/rateLimiter.js)\<close>

text \<open>
  The module keeps one process-wide \<^verbatim>\<open>Map\<close> from a key to its window
  \<^verbatim>\<open>{ windowStart, count }\<close>. The map is passed explicitly; \<^verbatim>\<open>Date.now()\<close>
  is the argument \<open>now\<close> (milliseconds, an integer). Iteration order of the map is
  never observed by this module, so the map is a partial function.
\<close>

record window =
  windowStart :: int
  count :: int

record rate_result =
  allowed :: bool
  remaining :: int

type_synonym windows = "string \<rightharpoonup> window"

definition CLEANUP_INTERVAL :: int where
  "CLEANUP_INTERVAL = 60000"

text \<open>The two constants of the only caller, app/routes/api.proxy.$.jsx.\<close>

definition AI_RATE_LIMIT :: int where
  "AI_RATE_LIMIT = 10"

definition RATE_WINDOW_MS :: int where
  "RATE_WINDOW_MS = 60000"

text \<open>
  \<^verbatim>\<open>checkRateLimit(key, maxRequests, windowMs)\<close>. The branch
  \<^verbatim>\<open>!entry || now - entry.windowStart >= windowMs\<close> stores a fresh window;
  otherwise \<^verbatim>\<open>entry.count += 1\<close> mutates the stored window, also when the
  request is then denied.
\<close>

definition checkRateLimit ::
  "string \<Rightarrow> int \<Rightarrow> int \<Rightarrow> int \<Rightarrow> windows \<Rightarrow> rate_result \<times> windows" where
  "checkRateLimit key maxRequests windowMs now ws =
     (let fresh = (\<lparr>allowed = True, remaining = maxRequests - 1\<rparr>,
                   ws(key \<mapsto> \<lparr>windowStart = now, count = 1\<rparr>))
      in case ws key of
           None \<Rightarrow> fresh
         | Some entry \<Rightarrow>
             if now - windowStart entry \<ge> windowMs then fresh
             else
               let entry' = entry\<lparr>count := count entry + 1\<rparr>;
                   ws' = ws(key \<mapsto> entry')
               in if count entry' > maxRequests
                  then (\<lparr>allowed = False, remaining = 0\<rparr>, ws')
                  else (\<lparr>allowed = True, remaining = maxRequests - count entry'\<rparr>, ws'))"

text \<open>
  A caller issuing requests for one key at the successive clock readings \<open>ts\<close>:
  the results in order, and the map afterwards.
\<close>

fun requests ::
  "string \<Rightarrow> int \<Rightarrow> int \<Rightarrow> int list \<Rightarrow> windows \<Rightarrow> rate_result list \<times> windows" where
  "requests key maxRequests windowMs [] ws = ([], ws)"
| "requests key maxRequests windowMs (t # ts) ws =
     (let (r, ws') = checkRateLimit key maxRequests windowMs t ws;
          (rs, ws'') = requests key maxRequests windowMs ts ws'
      in (r # rs, ws''))"

text \<open>
  The callback of \<^verbatim>\<open>setInterval(..., CLEANUP_INTERVAL)\<close>: one sweep at clock
  reading \<open>now\<close>. Deleting from a \<^verbatim>\<open>Map\<close> while iterating over it visits every
  remaining entry once, so the sweep is a filter. The age limit is the literal
  \<^verbatim>\<open>120_000\<close>; the sweep never sees a \<^verbatim>\<open>windowMs\<close>.
\<close>

definition sweep :: "int \<Rightarrow> windows \<Rightarrow> windows" where
  "sweep now ws =
     (\<lambda>key. case ws key of
              None \<Rightarrow> None
            | Some entry \<Rightarrow> if now - windowStart entry > 120000 then None else Some entry)"

section \<open>Fuzzy matcher (app/utils/fuzzyMatch.js)\<close>

text \<open>
  A JavaScript string is a sequence of UTF-16 code units: here a list over any type
  \<open>'c\<close> of code units; its \<^verbatim>\<open>length\<close> is the length of the list and
  \<^verbatim>\<open>===\<close> on strings is equality of lists. \<^verbatim>\<open>String.prototype.toLowerCase\<close>
  is a built-in of the language, not code of this repository: it is the parameter
  \<open>toLowerCase\<close> of every function that calls it, and nothing is assumed about
  it (it may change the length of a string, as the built-in does for U+0130).
\<close>

text \<open>\<^verbatim>\<open>hay.includes(needle)\<close>: \<open>needle\<close> occurs in \<open>hay\<close> as a contiguous run.\<close>

fun includesStr :: "'c list \<Rightarrow> 'c list \<Rightarrow> bool" where
  "includesStr [] needle = (needle = [])"
| "includesStr (c # cs) needle = (prefix needle (c # cs) \<or> includesStr cs needle)"

definition DEFAULT_THRESHOLD :: rat where
  "DEFAULT_THRESHOLD = 8 / 10"

definition isSubstringMatch :: "('c list \<Rightarrow> 'c list) \<Rightarrow> 'c list \<Rightarrow> 'c list \<Rightarrow> bool" where
  "isSubstringMatch toLowerCase a b =
     (let al = toLowerCase a; bl = toLowerCase b
      in length al \<ge> 3 \<and> (includesStr bl al \<or> includesStr al bl))"

text \<open>
  \<^verbatim>\<open>new Searcher(knownValues, { threshold, returnMatchData: false }).search(value)\<close>
  belongs to the package fast-fuzzy, which is not code of this repository. It is the
  parameter \<open>search\<close>: for a threshold, a vocabulary and a term it gives the
  matching vocabulary entries, best first.
\<close>

type_synonym 'c searcher = "rat \<Rightarrow> 'c list list \<Rightarrow> 'c list \<Rightarrow> 'c list list"

text \<open>
  \<^verbatim>\<open>fuzzyMatchValue(value, knownValues, threshold)\<close> for a string \<open>v\<close> and a list
  \<open>knownValues\<close>. \<^verbatim>\<open>if (exactMatch)\<close> tests truthiness, so an empty exact match
  would fall through to the loop.
\<close>

definition fuzzyMatchValue ::
  "('c list \<Rightarrow> 'c list) \<Rightarrow> 'c searcher \<Rightarrow> 'c list \<Rightarrow> 'c list list \<Rightarrow> rat \<Rightarrow> 'c list" where
  "fuzzyMatchValue toLowerCase search v knownValues threshold =
     (if v = [] \<or> length knownValues = 0 then v
      else
        let fromSubstring =
              (case find (\<lambda>known. isSubstringMatch toLowerCase v known) knownValues of
                 Some known \<Rightarrow> known
               | None \<Rightarrow>
                   (case search threshold knownValues v of
                      r # _ \<Rightarrow> r
                    | [] \<Rightarrow> v))
        in case find (\<lambda>k. toLowerCase k = toLowerCase v) knownValues of
             Some exactMatch \<Rightarrow> if exactMatch \<noteq> [] then exactMatch else fromSubstring
           | None \<Rightarrow> fromSubstring)"

subsection \<open>Lowerings for the examples\<close>

text \<open>
  Two concrete lowerings, used only where an example needs one. The first is on
  strings of 8-bit characters and lowers the letters A to Z; it agrees with the
  built-in on ASCII strings.
\<close>

definition lower_char :: "char \<Rightarrow> char" where
  "lower_char c =
     (case map_of (zip ''ABCDEFGHIJKLMNOPQRSTUVWXYZ'' ''abcdefghijklmnopqrstuvwxyz'') c of
        Some l \<Rightarrow> l
      | None \<Rightarrow> c)"

definition asciiLowerCase :: "string \<Rightarrow> string" where
  "asciiLowerCase s = map lower_char s"

text \<open>
  The second is on strings of code units given as numbers. It lowers A to Z, the
  Latin-1 capitals U+00C0 to U+00DE (without the sign U+00D7), and U+0130
  (capital I with dot above), which the built-in lowers to the two code units
  U+0069 U+0307; every other code unit is left as it is. It agrees with the
  built-in on strings of code units below 256, of U+0130 and of the combining dot
  U+0307.
\<close>

definition lowerUnit :: "nat \<Rightarrow> nat list" where
  "lowerUnit n =
     (if 65 \<le> n \<and> n \<le> 90 then [n + 32]
      else if 192 \<le> n \<and> n \<le> 222 \<and> n \<noteq> 215 then [n + 32]
      else if n = 304 then [105, 775]
      else [n])"

definition unitsLowerCase :: "nat list \<Rightarrow> nat list" where
  "unitsLowerCase s = concat (map lowerUnit s)"

section \<open>Filter descriptors and taxonomy\<close>

text \<open>
  A filter object has the dimensions of the tool schema (\<^verbatim>\<open>TOOL_DEFINITION\<close>).
  Each dimension is absent, \<^verbatim>\<open>null\<close>, or has a value of the schema's type
  (a string is a list of code units of type \<open>'c\<close>):
  the code tests \<^verbatim>\<open>f[k] !== undefined && f[k] !== null\<close> and the truthiness of
  a dimension, and both are kept. The order of the keys of an object is not
  modelled: the code reads it only in \<^verbatim>\<open>keys[0]\<close> of a one-element list.
\<close>

datatype 'a field = Absent | Null | Val 'a

record 'c variant_option =
  name :: "'c list"
  "value" :: "'c list"

text \<open>
  A JavaScript number is \<^verbatim>\<open>NaN\<close> or a rational; rounding to a double and the
  two infinities are not modelled.
\<close>

datatype number = NaN | Num rat

text \<open>
  A price bound as \<^verbatim>\<open>JSON.parse\<close> of the tool arguments can deliver it:
  \<^verbatim>\<open>null\<close>, a boolean, a number or a string (any JSON primitive). Arrays and
  objects in the place of a bound are not modelled.
\<close>

datatype raw_bound = RNull | RBool bool | RNum number | RStr string

text \<open>
  A price bound after \<^verbatim>\<open>sanitizeFilters\<close>: strings have been parsed and \<^verbatim>\<open>NaN\<close>
  dropped; \<^verbatim>\<open>null\<close> and booleans pass \<^verbatim>\<open>typeof min === "string"\<close> and
  \<^verbatim>\<open>isNaN(min)\<close> unchanged.
\<close>

datatype bound = BNull | BBool bool | BNum rat

record 'b price_range =
  min_bound :: "'b option"
  max_bound :: "'b option"

record ('c, 'b) filterDesc =
  productType :: "'c list field"
  productVendor :: "'c list field"
  tag :: "'c list field"
  available :: "bool field"
  price :: "'b price_range field"
  variantOption :: "'c variant_option field"

text \<open>The object literal \<^verbatim>\<open>{}\<close>: no dimension is present.\<close>

definition emptyFilter :: "('c, 'b) filterDesc" where
  "emptyFilter =
     \<lparr>productType = Absent, productVendor = Absent, tag = Absent,
      available = Absent, price = Absent, variantOption = Absent\<rparr>"

record 'c option_group =
  name :: "'c list"
  "values" :: "'c list list"

text \<open>
  The taxonomy fields the post-processing reads. A missing list
  (\<^verbatim>\<open>taxonomy.productTypes?.length > 0\<close> is false for it) is the empty list.
\<close>

record 'c taxonomy =
  productTypes :: "'c list list"
  vendors :: "'c list list"
  tags :: "'c list list"
  variantOptions :: "'c option_group list"

text \<open>\<^verbatim>\<open>Object.keys(f)\<close>, and the keys whose value is neither \<^verbatim>\<open>undefined\<close> nor \<^verbatim>\<open>null\<close>.\<close>

definition objectKeys :: "('c, 'b) filterDesc \<Rightarrow> string list" where
  "objectKeys f =
     (if productType f \<noteq> Absent then [''productType''] else []) @
     (if productVendor f \<noteq> Absent then [''productVendor''] else []) @
     (if tag f \<noteq> Absent then [''tag''] else []) @
     (if available f \<noteq> Absent then [''available''] else []) @
     (if price f \<noteq> Absent then [''price''] else []) @
     (if variantOption f \<noteq> Absent then [''variantOption''] else [])"

fun populated :: "'a field \<Rightarrow> bool" where
  "populated (Val _) = True"
| "populated _ = False"

definition populatedKeys :: "('c, 'b) filterDesc \<Rightarrow> string list" where
  "populatedKeys f =
     (if populated (productType f) then [''productType''] else []) @
     (if populated (productVendor f) then [''productVendor''] else []) @
     (if populated (tag f) then [''tag''] else []) @
     (if populated (available f) then [''available''] else []) @
     (if populated (price f) then [''price''] else []) @
     (if populated (variantOption f) then [''variantOption''] else [])"

subsection \<open>fuzzyCorrectFilters\<close>

text \<open>
  The callback of \<^verbatim>\<open>filters.map\<close>, for a taxonomy that is present, is four
  blocks run in order on the copy \<^verbatim>\<open>corrected\<close>; each block is one function
  here. A dimension is corrected when it is truthy (a non-empty string, or the
  \<^verbatim>\<open>variantOption\<close> object) and its vocabulary is non-empty.
\<close>

definition correctProductType ::
  "('c list \<Rightarrow> 'c list) \<Rightarrow> 'c searcher \<Rightarrow> 'c taxonomy \<Rightarrow>
   ('c, 'b) filterDesc \<Rightarrow> ('c, 'b) filterDesc" where
  "correctProductType toLowerCase search taxonomy corrected =
     (case productType corrected of
        Val s \<Rightarrow>
          if s \<noteq> [] \<and> length (productTypes taxonomy) > 0
          then corrected\<lparr>productType :=
                 Val (fuzzyMatchValue toLowerCase search s (productTypes taxonomy) DEFAULT_THRESHOLD)\<rparr>
          else corrected
      | _ \<Rightarrow> corrected)"

definition correctProductVendor ::
  "('c list \<Rightarrow> 'c list) \<Rightarrow> 'c searcher \<Rightarrow> 'c taxonomy \<Rightarrow>
   ('c, 'b) filterDesc \<Rightarrow> ('c, 'b) filterDesc" where
  "correctProductVendor toLowerCase search taxonomy corrected =
     (case productVendor corrected of
        Val s \<Rightarrow>
          if s \<noteq> [] \<and> length (vendors taxonomy) > 0
          then corrected\<lparr>productVendor :=
                 Val (fuzzyMatchValue toLowerCase search s (vendors taxonomy) DEFAULT_THRESHOLD)\<rparr>
          else corrected
      | _ \<Rightarrow> corrected)"

definition correctTag ::
  "('c list \<Rightarrow> 'c list) \<Rightarrow> 'c searcher \<Rightarrow> 'c taxonomy \<Rightarrow>
   ('c, 'b) filterDesc \<Rightarrow> ('c, 'b) filterDesc" where
  "correctTag toLowerCase search taxonomy corrected =
     (case tag corrected of
        Val s \<Rightarrow>
          if s \<noteq> [] \<and> length (tags taxonomy) > 0
          then corrected\<lparr>tag :=
                 Val (fuzzyMatchValue toLowerCase search s (tags taxonomy) DEFAULT_THRESHOLD)\<rparr>
          else corrected
      | _ \<Rightarrow> corrected)"

definition correctVariantOption ::
  "('c list \<Rightarrow> 'c list) \<Rightarrow> 'c searcher \<Rightarrow> 'c taxonomy \<Rightarrow>
   ('c, 'b) filterDesc \<Rightarrow> ('c, 'b) filterDesc" where
  "correctVariantOption toLowerCase search taxonomy corrected =
     (case variantOption corrected of
        Val vo \<Rightarrow>
          if length (variantOptions taxonomy) > 0
          then
            let optNames = map option_group.name (variantOptions taxonomy);
                matchedName =
                  fuzzyMatchValue toLowerCase search (variant_option.name vo) optNames DEFAULT_THRESHOLD;
                vo1 = vo\<lparr>variant_option.name := matchedName\<rparr>;
                optionGroup =
                  find (\<lambda>opt. toLowerCase (option_group.name opt) = toLowerCase matchedName)
                    (variantOptions taxonomy)
            in case optionGroup of
                 Some g \<Rightarrow>
                   if variant_option.value vo1 \<noteq> []
                   then corrected\<lparr>variantOption :=
                          Val (vo1\<lparr>variant_option.value :=
                                 fuzzyMatchValue toLowerCase search (variant_option.value vo1)
                                   (values g) DEFAULT_THRESHOLD\<rparr>)\<rparr>
                   else corrected\<lparr>variantOption := Val vo1\<rparr>
               | None \<Rightarrow> corrected\<lparr>variantOption := Val vo1\<rparr>
          else corrected
      | _ \<Rightarrow> corrected)"

definition fuzzyCorrectFilter ::
  "('c list \<Rightarrow> 'c list) \<Rightarrow> 'c searcher \<Rightarrow> 'c taxonomy \<Rightarrow>
   ('c, 'b) filterDesc \<Rightarrow> ('c, 'b) filterDesc" where
  "fuzzyCorrectFilter toLowerCase search taxonomy f =
     correctVariantOption toLowerCase search taxonomy
       (correctTag toLowerCase search taxonomy
         (correctProductVendor toLowerCase search taxonomy
           (correctProductType toLowerCase search taxonomy f)))"

text \<open>\<^verbatim>\<open>fuzzyCorrectFilters(filters, taxonomy)\<close>; a \<^verbatim>\<open>null\<close> taxonomy is \<open>None\<close>.\<close>

definition fuzzyCorrectFilters ::
  "('c list \<Rightarrow> 'c list) \<Rightarrow> 'c searcher \<Rightarrow> ('c, 'b) filterDesc list \<Rightarrow>
   'c taxonomy option \<Rightarrow> ('c, 'b) filterDesc list" where
  "fuzzyCorrectFilters toLowerCase search filters taxonomy =
     (case taxonomy of
        None \<Rightarrow> filters
      | Some t \<Rightarrow>
          if length filters = 0 then filters
          else map (fuzzyCorrectFilter toLowerCase search t) filters)"

section \<open>Filter resolution engine (app/services/ai-filter.server.js)\<close>

subsection \<open>sanitizeFilters\<close>

text \<open>
  \<^verbatim>\<open>parseFloat\<close> is a built-in of the language, not code of this repository: it is
  the parameter \<open>parseFloat\<close>, from a string to a number that may be \<^verbatim>\<open>NaN\<close>.

  One price bound through the two lines
  \<^verbatim>\<open>min = typeof min === "string" ? parseFloat(min) : min\<close> and
  \<^verbatim>\<open>if (isNaN(min)) min = undefined\<close>. \<open>None\<close> is \<^verbatim>\<open>undefined\<close>.
  \<^verbatim>\<open>isNaN\<close> converts its argument to a number first: \<^verbatim>\<open>isNaN(undefined)\<close> is
  true, \<^verbatim>\<open>isNaN(null)\<close>, \<^verbatim>\<open>isNaN(true)\<close> and \<^verbatim>\<open>isNaN(false)\<close> are false.
\<close>

definition coerceBound :: "(string \<Rightarrow> number) \<Rightarrow> raw_bound option \<Rightarrow> bound option" where
  "coerceBound parseFloat x =
     (case x of
        None \<Rightarrow> None
      | Some RNull \<Rightarrow> Some BNull
      | Some (RBool b) \<Rightarrow> Some (BBool b)
      | Some (RNum NaN) \<Rightarrow> None
      | Some (RNum (Num r)) \<Rightarrow> Some (BNum r)
      | Some (RStr s) \<Rightarrow> (case parseFloat s of NaN \<Rightarrow> None | Num r \<Rightarrow> Some (BNum r)))"

text \<open>
  The operators \<^verbatim>\<open><\<close> and \<^verbatim>\<open>>\<close> convert \<^verbatim>\<open>null\<close> and booleans to numbers:
  \<^verbatim>\<open>null\<close> and \<^verbatim>\<open>false\<close> to 0, \<^verbatim>\<open>true\<close> to 1.
\<close>

fun toNumber :: "bound \<Rightarrow> rat" where
  "toNumber BNull = 0"
| "toNumber (BBool b) = (if b then 1 else 0)"
| "toNumber (BNum r) = r"

text \<open>
  The callback of \<^verbatim>\<open>filters.map\<close>. \<^verbatim>\<open>if (cleaned.price)\<close> holds for a price
  object and fails for an absent or \<^verbatim>\<open>null\<close> price.
\<close>

definition sanitizeFilter :: "(string \<Rightarrow> number) \<Rightarrow> ('c, raw_bound) filterDesc \<Rightarrow> ('c, bound) filterDesc" where
  "sanitizeFilter parseFloat f =
     (let cleaned = (\<lambda>p. \<lparr>productType = productType f, productVendor = productVendor f,
                            tag = tag f, available = available f, price = p,
                            variantOption = variantOption f\<rparr>)
      in case price f of
           Val p \<Rightarrow>
             let mn = coerceBound parseFloat (min_bound p);
                 mx = coerceBound parseFloat (max_bound p);
                 (mn, mx) =
                   (case (mn, mx) of
                      (Some a, Some b) \<Rightarrow> if toNumber a > toNumber b then (mx, mn) else (mn, mx)
                    | _ \<Rightarrow> (mn, mx))
             in if mn = None \<and> mx = None then cleaned Absent
                else cleaned (Val \<lparr>min_bound = mn, max_bound = mx\<rparr>)
         | Null \<Rightarrow> cleaned Null
         | Absent \<Rightarrow> cleaned Absent)"

text \<open>
  \<^verbatim>\<open>sanitizeFilters(filters, taxonomyContext)\<close>; the second argument is not read.
  The final filter keeps an object when \<^verbatim>\<open>Object.keys(f).length > 0\<close>.
\<close>

definition sanitizeFilters ::
  "(string \<Rightarrow> number) \<Rightarrow> ('c, raw_bound) filterDesc list \<Rightarrow> ('c, bound) filterDesc list" where
  "sanitizeFilters parseFloat filters =
     filter (\<lambda>f. length (objectKeys f) > 0) (map (sanitizeFilter parseFloat) filters)"

subsection \<open>mergeFilters\<close>

text \<open>
  The body of the first loop, on the pair \<^verbatim>\<open>(priceFilters, nonPriceFilters)\<close>.
  \<^verbatim>\<open>keys\<close> are the populated keys; \<^verbatim>\<open>f.price\<close> is truthy exactly for a price
  object.
\<close>

definition collect ::
  "bound price_range list \<times> ('c, bound) filterDesc list \<Rightarrow> ('c, bound) filterDesc \<Rightarrow>
   bound price_range list \<times> ('c, bound) filterDesc list" where
  "collect acc f =
     (let (priceFilters, nonPriceFilters) = acc;
          keys = populatedKeys f
      in case price f of
           Val p \<Rightarrow>
             if length keys = 1 \<and> keys ! 0 = ''price''
             then (priceFilters @ [p], nonPriceFilters)
             else if length keys > 1
             then (priceFilters @ [p], nonPriceFilters @ [f\<lparr>price := Absent\<rparr>])
             else (priceFilters, nonPriceFilters @ [f])
         | _ \<Rightarrow> (priceFilters, nonPriceFilters @ [f]))"

text \<open>The body of the second loop: \<^verbatim>\<open>merged\<close> after one more price object \<open>p\<close>.\<close>

definition mergePrice :: "bound price_range \<Rightarrow> bound price_range \<Rightarrow> bound price_range" where
  "mergePrice merged p =
     (let merged =
            (case min_bound p of
               Some x \<Rightarrow>
                 (case min_bound merged of
                    None \<Rightarrow> merged\<lparr>min_bound := Some x\<rparr>
                  | Some m \<Rightarrow> if toNumber x < toNumber m then merged\<lparr>min_bound := Some x\<rparr>
                              else merged)
             | None \<Rightarrow> merged)
      in case max_bound p of
           Some x \<Rightarrow>
             (case max_bound merged of
                None \<Rightarrow> merged\<lparr>max_bound := Some x\<rparr>
              | Some m \<Rightarrow> if toNumber x > toNumber m then merged\<lparr>max_bound := Some x\<rparr>
                          else merged)
         | None \<Rightarrow> merged)"

definition mergeFilters :: "('c, bound) filterDesc list \<Rightarrow> ('c, bound) filterDesc list" where
  "mergeFilters filters =
     (let (priceFilters, nonPriceFilters) = foldl collect ([], []) filters
      in if length priceFilters > 0
         then
           let merged = foldl mergePrice \<lparr>min_bound = None, max_bound = None\<rparr> priceFilters
           in if min_bound merged \<noteq> None \<or> max_bound merged \<noteq> None
              then nonPriceFilters @ [emptyFilter\<lparr>price := Val merged\<rparr>]
              else nonPriceFilters
         else nonPriceFilters)"

subsection \<open>The merge pass in the words of the specification\<close>

text \<open>
  These definitions follow the specification, not the code; the code is compared
  with them below. All price sub-objects of a list, from price-only and from mixed
  filters alike; the filters that stay beside the merged range (a price-only filter
  goes, a mixed filter loses its \<^verbatim>\<open>price\<close> key and nothing else, any other filter
  stays as it is); and the minimum and maximum bounds that are present.
\<close>

definition spec_priceObjects :: "('c, bound) filterDesc list \<Rightarrow> bound price_range list" where
  "spec_priceObjects fs = concat (map (\<lambda>f. case price f of Val p \<Rightarrow> [p] | _ \<Rightarrow> []) fs)"

definition spec_nonPriceFilters :: "('c, bound) filterDesc list \<Rightarrow> ('c, bound) filterDesc list" where
  "spec_nonPriceFilters fs =
     concat (map (\<lambda>f. case price f of
                         Val p \<Rightarrow> if populatedKeys f = [''price''] then []
                                  else [f\<lparr>price := Absent\<rparr>]
                       | _ \<Rightarrow> [f]) fs)"

definition spec_mins :: "bound price_range list \<Rightarrow> bound list" where
  "spec_mins ps = concat (map (\<lambda>p. case min_bound p of Some x \<Rightarrow> [x] | None \<Rightarrow> []) ps)"

definition spec_maxs :: "bound price_range list \<Rightarrow> bound list" where
  "spec_maxs ps = concat (map (\<lambda>p. case max_bound p of Some x \<Rightarrow> [x] | None \<Rightarrow> []) ps)"

fun opt_list :: "'a option \<Rightarrow> 'a list" where
  "opt_list None = []"
| "opt_list (Some x) = [x]"

text \<open>A bound that is absent, a number or a string: what the tool schema and the string coercion cover.\<close>

fun number_or_string :: "raw_bound option \<Rightarrow> bool" where
  "number_or_string None = True"
| "number_or_string (Some (RNum _)) = True"
| "number_or_string (Some (RStr _)) = True"
| "number_or_string _ = False"

subsection \<open>mapQueryToFilters\<close>



text \<open>
  The result of \<^verbatim>\<open>JSON.parse(toolCall.function.arguments)\<close> and the
  destructuring with defaults that follows it (\<^verbatim>\<open>filters = []\<close>,
  \<^verbatim>\<open>explanation = ""\<close>, \<^verbatim>\<open>searchQuery = ""\<close>), when neither throws.
\<close>

record 'c tool_arguments =
  filters :: "('c, raw_bound) filterDesc list"
  explanation :: string
  searchQuery :: string



text \<open>The returned object; \<^verbatim>\<open>searchQuery\<close> is absent from the two early returns.\<close>

record 'c resolution =
  filters :: "('c, bound) filterDesc list"
  explanation :: string
  searchQuery :: "string option"
  latencyMs :: int




section \<open>Query cache (app/utils/queryCache.js)\<close>

text \<open>
  The module keeps one process-wide \<^verbatim>\<open>Map\<close> from a key to
  \<^verbatim>\<open>{ value, timestamp }\<close>. A \<^verbatim>\<open>Map\<close> iterates in insertion order and the
  module relies on that order, so the cache is the association list of its entries
  in iteration order, oldest first: \<^verbatim>\<open>cache.delete(k)\<close> is \<^const>\<open>AList.delete\<close>,
  and \<^verbatim>\<open>cache.set(k, e)\<close> is \<^const>\<open>AList.update\<close>, which replaces the entry in
  place when the key is present and appends it otherwise. \<^verbatim>\<open>cache.size\<close> is the
  length of the list, whose keys are distinct in every state reached from the empty
  cache. \<^verbatim>\<open>Date.now()\<close> is the argument \<open>now\<close>; the type of cached values is a
  parameter.
\<close>

record 'v entry =
  "value" :: 'v
  timestamp :: int

type_synonym 'v cache = "(string \<times> 'v entry) list"

definition MAX_ENTRIES :: nat where
  "MAX_ENTRIES = 500"

definition TTL_MS :: int where
  "TTL_MS = 30 * 60 * 1000"

text \<open>\<^verbatim>\<open>cacheGet(key)\<close>: the returned value (\<open>None\<close> for \<^verbatim>\<open>undefined\<close>) and the cache afterwards.\<close>

definition cacheGet :: "string \<Rightarrow> int \<Rightarrow> 'v cache \<Rightarrow> 'v option \<times> 'v cache" where
  "cacheGet key now cache =
     (case map_of cache key of
        None \<Rightarrow> (None, cache)
      | Some entry \<Rightarrow>
          if now - timestamp entry > TTL_MS
          then (None, AList.delete key cache)
          else (Some (value entry), AList.update key entry (AList.delete key cache)))"

text \<open>
  \<^verbatim>\<open>cacheSet(key, value)\<close>. \<^verbatim>\<open>cache.keys().next().value\<close> is the first key in
  iteration order; on an empty map it is \<^verbatim>\<open>undefined\<close> and the delete does nothing.
\<close>

definition cacheSet :: "string \<Rightarrow> 'v \<Rightarrow> int \<Rightarrow> 'v cache \<Rightarrow> 'v cache" where
  "cacheSet key v now cache =
     (let c1 = AList.delete key cache;
          c2 = (if length c1 \<ge> MAX_ENTRIES
                then (case c1 of [] \<Rightarrow> c1 | (oldest, _) # _ \<Rightarrow> AList.delete oldest c1)
                else c1)
      in AList.update key \<lparr>value = v, timestamp = now\<rparr> c2)"

text \<open>\<^verbatim>\<open>cacheFlushShop(shopDomain)\<close>: every key that starts with \<^verbatim>\<open>shopDomain + "::"\<close> is deleted.\<close>

definition cacheFlushShop :: "string \<Rightarrow> 'v cache \<Rightarrow> 'v cache" where
  "cacheFlushShop shopDomain cache =
     filter (\<lambda>(key, _). \<not> prefix (shopDomain @ ''::'') key) cache"

text \<open>The calls a client of the module can make, and a sequence of them run in order.\<close>

datatype 'v cache_call =
    Get string int
  | Set string 'v int
  | FlushShop string

fun call :: "'v cache_call \<Rightarrow> 'v cache \<Rightarrow> 'v cache" where
  "call (Get key now) cache = snd (cacheGet key now cache)"
| "call (Set key v now) cache = cacheSet key v now cache"
| "call (FlushShop shop) cache = cacheFlushShop shop cache"

fun calls :: "'v cache_call list \<Rightarrow> 'v cache \<Rightarrow> 'v cache" where
  "calls [] cache = cache"
| "calls (c # cs) cache = calls cs (call c cache)"

text \<open>
  A cache of \<open>n\<close> entries, oldest first, with the keys \<open>k\<close>, \<open>''k'' @ k\<close>,
  \<open>''kk'' @ k\<close>, ... and the values \<open>n - 1\<close>, ..., \<open>0\<close>.
\<close>

fun filled :: "nat \<Rightarrow> string \<Rightarrow> nat cache" where
  "filled 0 k = []"
| "filled (Suc n) k = (k, \<lparr>value = n, timestamp = 0\<rparr>) # filled n (CHR ''k'' # k)"

section \<open>Properties of the rate limiter\<close>

lemma checkRateLimit_fresh:
  assumes "ws key = None \<or> (\<exists>e. ws key = Some e \<and> now - windowStart e \<ge> windowMs)"
  shows "checkRateLimit key maxRequests windowMs now ws =
           (\<lparr>allowed = True, remaining = maxRequests - 1\<rparr>,
            ws(key \<mapsto> \<lparr>windowStart = now, count = 1\<rparr>))"
  using assms by (auto simp: checkRateLimit_def Let_def split: option.splits)

lemma checkRateLimit_within:
  assumes "ws key = Some e" and "now - windowStart e < windowMs"
  shows "checkRateLimit key maxRequests windowMs now ws =
           ((if count e + 1 > maxRequests
             then \<lparr>allowed = False, remaining = 0\<rparr>
             else \<lparr>allowed = True, remaining = maxRequests - (count e + 1)\<rparr>),
            ws(key \<mapsto> e\<lparr>count := count e + 1\<rparr>))"
  using assms by (simp add: checkRateLimit_def Let_def)

text \<open>
  Inside one window that already holds \<open>c\<close> requests, the \<open>i\<close>-th further request
  (from 0) sees the count \<open>c + i + 1\<close>.
\<close>

lemma requests_within:
  assumes "ws key = Some \<lparr>windowStart = t0, count = c\<rparr>"
    and "\<forall>t \<in> set ts. t - t0 < windowMs"
  shows "requests key maxRequests windowMs ts ws =
           (map (\<lambda>i. if c + int i + 1 > maxRequests
                      then \<lparr>allowed = False, remaining = 0\<rparr>
                      else \<lparr>allowed = True, remaining = maxRequests - (c + int i + 1)\<rparr>)
                [0..<length ts],
            ws(key \<mapsto> \<lparr>windowStart = t0, count = c + int (length ts)\<rparr>))"
  using assms
proof (induction ts arbitrary: ws c)
  case Nil
  then have "ws(key \<mapsto> \<lparr>windowStart = t0, count = c\<rparr>) = ws"
    by (simp add: fun_upd_idem)
  then show ?case by simp
next
  case (Cons t ts)
  let ?e = "\<lparr>windowStart = t0, count = c\<rparr>"
  let ?ws' = "ws(key \<mapsto> \<lparr>windowStart = t0, count = c + 1\<rparr>)"
  let ?res = "\<lambda>n. if n > maxRequests
                   then \<lparr>allowed = False, remaining = 0\<rparr>
                   else \<lparr>allowed = True, remaining = maxRequests - n\<rparr>"
  have step: "checkRateLimit key maxRequests windowMs t ws = (?res (c + 1), ?ws')"
    using checkRateLimit_within [of ws key ?e t windowMs maxRequests] Cons.prems by simp
  have "?ws' key = Some \<lparr>windowStart = t0, count = c + 1\<rparr>"
    by simp
  moreover have "\<forall>t \<in> set ts. t - t0 < windowMs"
    using Cons.prems by simp
  ultimately have rest: "requests key maxRequests windowMs ts ?ws' =
           (map (\<lambda>i. ?res ((c + 1) + int i + 1)) [0..<length ts],
            ?ws'(key \<mapsto> \<lparr>windowStart = t0, count = (c + 1) + int (length ts)\<rparr>))"
    by (rule Cons.IH)
  have shift: "[0..<length (t # ts)] = 0 # map Suc [0..<length ts]"
    by (simp add: upt_conv_Cons map_Suc_upt del: upt_Suc)
  have m: "map (\<lambda>i. ?res (c + int i + 1)) (map Suc [0..<length ts]) =
           map (\<lambda>i. ?res ((c + 1) + int i + 1)) [0..<length ts]"
    by (simp add: o_def add.assoc add.commute add.left_commute)
  have "requests key maxRequests windowMs (t # ts) ws =
          (?res (c + 1) # map (\<lambda>i. ?res ((c + 1) + int i + 1)) [0..<length ts],
           ?ws'(key \<mapsto> \<lparr>windowStart = t0, count = (c + 1) + int (length ts)\<rparr>))"
    by (simp add: step rest)
  also have "\<dots> = (map (\<lambda>i. ?res (c + int i + 1)) [0..<length (t # ts)],
            ws(key \<mapsto> \<lparr>windowStart = t0, count = c + int (length (t # ts))\<rparr>))"
    unfolding shift by (simp add: m add.assoc add.commute add.left_commute del: upt_Suc)
  finally show ?case .
qed

lemma requests_append:
  "requests key m w (ts @ us) ws =
     (let (rs, ws') = requests key m w ts ws;
          (rs', ws'') = requests key m w us ws'
      in (rs @ rs', ws''))"
  by (induction ts arbitrary: ws) (simp_all add: Let_def split: prod.splits)

lemma requests_window_reset:
  assumes first: "ws key = None \<or> (\<exists>e. ws key = Some e \<and> t0 - windowStart e \<ge> windowMs)"
    and m: "1 \<le> m"
    and len: "length ts = nat (m - 1)"
    and within: "\<forall>t \<in> set ts. t - t0 < windowMs"
    and late: "t11 - t0 < windowMs"
    and elapsed: "t' - t0 \<ge> windowMs"
  shows "map allowed (fst (requests key m windowMs (t0 # ts @ [t11, t']) ws)) =
           replicate (nat m) True @ [False, True]
         \<and> snd (requests key m windowMs (t0 # ts @ [t11, t']) ws) key =
           Some \<lparr>windowStart = t', count = 1\<rparr>"
proof -
  let ?ws1 = "ws(key \<mapsto> \<lparr>windowStart = t0, count = 1\<rparr>)"
  let ?res = "\<lambda>i. if 1 + int i + 1 > m
                   then \<lparr>allowed = False, remaining = 0\<rparr>
                   else \<lparr>allowed = True, remaining = m - (1 + int i + 1)\<rparr>"
  let ?ws2 = "?ws1(key \<mapsto> \<lparr>windowStart = t0, count = 1 + int (length (ts @ [t11]))\<rparr>)"
  have s1: "checkRateLimit key m windowMs t0 ws =
              (\<lparr>allowed = True, remaining = m - 1\<rparr>, ?ws1)"
    using first by (rule checkRateLimit_fresh)
  have "?ws1 key = Some \<lparr>windowStart = t0, count = 1\<rparr>"
    by simp
  moreover have "\<forall>t \<in> set (ts @ [t11]). t - t0 < windowMs"
    using within late by simp
  ultimately have s2: "requests key m windowMs (ts @ [t11]) ?ws1 =
      (map ?res [0..<length (ts @ [t11])], ?ws2)"
    by (rule requests_within)
  have "?ws2 key = Some \<lparr>windowStart = t0, count = 1 + int (length (ts @ [t11]))\<rparr>"
    by simp
  then have s3: "checkRateLimit key m windowMs t' ?ws2 =
      (\<lparr>allowed = True, remaining = m - 1\<rparr>,
       ?ws2(key \<mapsto> \<lparr>windowStart = t', count = 1\<rparr>))"
    using elapsed by (intro checkRateLimit_fresh) simp
  have split: "t0 # ts @ [t11, t'] = t0 # ((ts @ [t11]) @ [t'])"
    by simp
  have "requests key m windowMs ((ts @ [t11]) @ [t']) ?ws1 =
      (let (rs, ws') = requests key m windowMs (ts @ [t11]) ?ws1;
           (rs', ws'') = requests key m windowMs [t'] ws'
       in (rs @ rs', ws''))"
    by (rule requests_append)
  also have "\<dots> = (map ?res [0..<length (ts @ [t11])] @ [\<lparr>allowed = True, remaining = m - 1\<rparr>],
       ?ws2(key \<mapsto> \<lparr>windowStart = t', count = 1\<rparr>))"
    by (simp only: s2 Let_def prod.case requests.simps s3)
  finally have r1: "requests key m windowMs ((ts @ [t11]) @ [t']) ?ws1 =
      (map ?res [0..<length (ts @ [t11])] @ [\<lparr>allowed = True, remaining = m - 1\<rparr>],
       ?ws2(key \<mapsto> \<lparr>windowStart = t', count = 1\<rparr>))" .
  have "requests key m windowMs (t0 # ((ts @ [t11]) @ [t'])) ws =
      (let (r, ws') = checkRateLimit key m windowMs t0 ws;
           (rs, ws'') = requests key m windowMs ((ts @ [t11]) @ [t']) ws'
       in (r # rs, ws''))"
    by (rule requests.simps(2))
  also have "\<dots> = (\<lparr>allowed = True, remaining = m - 1\<rparr> #
         map ?res [0..<length (ts @ [t11])] @ [\<lparr>allowed = True, remaining = m - 1\<rparr>],
       ?ws2(key \<mapsto> \<lparr>windowStart = t', count = 1\<rparr>))"
    by (simp only: s1 r1 Let_def prod.case)
  finally have run: "requests key m windowMs (t0 # ts @ [t11, t']) ws =
      (\<lparr>allowed = True, remaining = m - 1\<rparr> #
         map ?res [0..<length (ts @ [t11])] @ [\<lparr>allowed = True, remaining = m - 1\<rparr>],
       ?ws2(key \<mapsto> \<lparr>windowStart = t', count = 1\<rparr>))"
    unfolding split .
  have inner: "map (\<lambda>i. allowed (?res i)) [0..<length ts] = replicate (length ts) True"
    using len m by (intro replicate_eqI) auto
  have lastone: "allowed (?res (length ts)) = False"
    using len m by simp
  have "map allowed (map ?res [0..<length (ts @ [t11])]) =
          replicate (length ts) True @ [False]"
    using inner lastone by (simp add: o_def)
  moreover have "Suc (length ts) = nat m"
    using len m by simp
  ultimately have "map allowed (\<lparr>allowed = True, remaining = m - 1\<rparr> #
         map ?res [0..<length (ts @ [t11])] @ [\<lparr>allowed = True, remaining = m - 1\<rparr>]) =
       replicate (nat m) True @ [False, True]"
    by (simp del: replicate_Suc add: replicate_Suc [symmetric])
  then show ?thesis
    unfolding run by simp
qed

text \<open>
  C8. \<^verbatim>\<open>checkRateLimit(key, maxRequests, windowMs)\<close>: on the first request for
  the key, or once \<open>now - windowStart \<ge> windowMs\<close>, a fresh window with count 1 is
  stored and the request is allowed; otherwise the stored count is incremented, and
  the request is denied with remaining 0 if the new count exceeds \<open>maxRequests\<close>,
  else allowed with remaining \<open>maxRequests - count\<close>. Consequently, for every
  \<open>maxRequests \<ge> 1\<close> (10 in the caller): \<open>maxRequests\<close> requests inside one window
  are all allowed, the next one inside the window is denied, and the first request
  after the window has elapsed is allowed and leaves a window with count 1.
\<close>

theorem checkRateLimit_window:
  "((ws key = None \<or> (\<exists>e. ws key = Some e \<and> now - windowStart e \<ge> windowMs)) \<longrightarrow>
      checkRateLimit key maxRequests windowMs now ws =
        (\<lparr>allowed = True, remaining = maxRequests - 1\<rparr>,
         ws(key \<mapsto> \<lparr>windowStart = now, count = 1\<rparr>)))
   \<and> (\<forall>e. ws key = Some e \<and> now - windowStart e < windowMs \<longrightarrow>
      checkRateLimit key maxRequests windowMs now ws =
        ((if count e + 1 > maxRequests
          then \<lparr>allowed = False, remaining = 0\<rparr>
          else \<lparr>allowed = True, remaining = maxRequests - (count e + 1)\<rparr>),
         ws(key \<mapsto> e\<lparr>count := count e + 1\<rparr>)))
   \<and> (ws key = None \<and> 1 \<le> maxRequests \<and> length ts = nat (maxRequests - 1)
        \<and> (\<forall>t \<in> set ts. t - now < windowMs) \<and> t11 - now < windowMs
        \<and> t' - now \<ge> windowMs \<longrightarrow>
      map allowed (fst (requests key maxRequests windowMs (now # ts @ [t11, t']) ws)) =
        replicate (nat maxRequests) True @ [False, True]
      \<and> snd (requests key maxRequests windowMs (now # ts @ [t11, t']) ws) key =
        Some \<lparr>windowStart = t', count = 1\<rparr>)"
proof (intro conjI impI allI)
  assume "ws key = None \<or> (\<exists>e. ws key = Some e \<and> now - windowStart e \<ge> windowMs)"
  then show "checkRateLimit key maxRequests windowMs now ws =
        (\<lparr>allowed = True, remaining = maxRequests - 1\<rparr>,
         ws(key \<mapsto> \<lparr>windowStart = now, count = 1\<rparr>))"
    by (rule checkRateLimit_fresh)
next
  fix e
  assume "ws key = Some e \<and> now - windowStart e < windowMs"
  then show "checkRateLimit key maxRequests windowMs now ws =
        ((if count e + 1 > maxRequests
          then \<lparr>allowed = False, remaining = 0\<rparr>
          else \<lparr>allowed = True, remaining = maxRequests - (count e + 1)\<rparr>),
         ws(key \<mapsto> e\<lparr>count := count e + 1\<rparr>))"
    by (simp add: checkRateLimit_within)
next
  assume a: "ws key = None \<and> 1 \<le> maxRequests \<and> length ts = nat (maxRequests - 1)
        \<and> (\<forall>t \<in> set ts. t - now < windowMs) \<and> t11 - now < windowMs
        \<and> t' - now \<ge> windowMs"
  then have r: "map allowed (fst (requests key maxRequests windowMs (now # ts @ [t11, t']) ws)) =
           replicate (nat maxRequests) True @ [False, True]
         \<and> snd (requests key maxRequests windowMs (now # ts @ [t11, t']) ws) key =
           Some \<lparr>windowStart = t', count = 1\<rparr>"
    by (intro requests_window_reset) simp_all
  from r show "map allowed (fst (requests key maxRequests windowMs (now # ts @ [t11, t']) ws)) =
        replicate (nat maxRequests) True @ [False, True]"
    by (rule conjunct1)
  from r show "snd (requests key maxRequests windowMs (now # ts @ [t11, t']) ws) key =
        Some \<lparr>windowStart = t', count = 1\<rparr>"
    by (rule conjunct2)
qed

theorem checkRateLimit_window_witness:
  "map allowed (fst (requests ''shop.myshopify.com'' AI_RATE_LIMIT RATE_WINDOW_MS
       (1000 # [2000, 3000, 4000, 5000, 6000, 7000, 8000, 9000, 10000] @ [11000, 61000])
       Map.empty)) =
     [True, True, True, True, True, True, True, True, True, True, False, True]
   \<and> snd (requests ''shop.myshopify.com'' AI_RATE_LIMIT RATE_WINDOW_MS
       (1000 # [2000, 3000, 4000, 5000, 6000, 7000, 8000, 9000, 10000] @ [11000, 61000])
       Map.empty) ''shop.myshopify.com'' = Some \<lparr>windowStart = 61000, count = 1\<rparr>
   \<and> checkRateLimit ''shop.myshopify.com'' AI_RATE_LIMIT RATE_WINDOW_MS 1000 Map.empty =
       (\<lparr>allowed = True, remaining = 9\<rparr>,
        [''shop.myshopify.com'' \<mapsto> \<lparr>windowStart = 1000, count = 1\<rparr>])"
proof -
  let ?ts = "[2000, 3000, 4000, 5000, 6000, 7000, 8000, 9000, 10000] :: int list"
  note inst = checkRateLimit_window [where ws = Map.empty and key = "''shop.myshopify.com''"
      and now = 1000 and windowMs = 60000 and maxRequests = 10
      and ts = ?ts and ?t11.0 = 11000 and t' = 61000]
  have hyp1: "(Map.empty :: windows) ''shop.myshopify.com'' = None
      \<or> (\<exists>e. (Map.empty :: windows) ''shop.myshopify.com'' = Some e
            \<and> 1000 - windowStart e \<ge> 60000)"
    by simp
  have hyp3: "(Map.empty :: windows) ''shop.myshopify.com'' = None \<and> (1::int) \<le> 10
      \<and> length ?ts = nat (10 - 1)
      \<and> (\<forall>t \<in> set ?ts. t - 1000 < 60000) \<and> (11000::int) - 1000 < 60000
      \<and> (61000::int) - 1000 \<ge> 60000"
    by simp
  from inst hyp1 have c1: "checkRateLimit ''shop.myshopify.com'' 10 60000 1000 Map.empty =
       (\<lparr>allowed = True, remaining = 10 - 1\<rparr>,
        [''shop.myshopify.com'' \<mapsto> \<lparr>windowStart = 1000, count = 1\<rparr>])"
    by blast
  from inst hyp3 have c3:
    "map allowed (fst (requests ''shop.myshopify.com'' 10 60000 (1000 # ?ts @ [11000, 61000])
        Map.empty)) = replicate (nat 10) True @ [False, True]
     \<and> snd (requests ''shop.myshopify.com'' 10 60000 (1000 # ?ts @ [11000, 61000])
        Map.empty) ''shop.myshopify.com'' = Some \<lparr>windowStart = 61000, count = 1\<rparr>"
    by blast
  have rep: "replicate (nat 10) True @ [False, True] =
      [True, True, True, True, True, True, True, True, True, True, False, True]"
    by (simp add: eval_nat_numeral)
  show ?thesis
    unfolding AI_RATE_LIMIT_def RATE_WINDOW_MS_def
    using c1 c3 unfolding rep by simp
qed

text \<open>
  What one sweep does to one key: the entry is removed when its \<open>windowStart\<close>
  lies more than 120000 ms before \<open>now\<close>, and is left as it was otherwise.
\<close>

lemma sweep_key:
  "sweep now ws key =
     (case ws key of
        None \<Rightarrow> None
      | Some e \<Rightarrow> if now - windowStart e > 120000 then None else Some e)"
  by (simp add: sweep_def)

text \<open>
  C9. The sweep, whose comment says that it cleans up expired entries, at a window
  duration of 300000 ms. Ten requests at the clock readings 0 to 9 use up the
  window that started at 0. An eleventh request at 150001 lies inside that window,
  and is denied when no sweep has run. A sweep at 150000 removes the window, which
  is then 150000 ms old: less than the window duration, so the window has not
  expired, and less than twice the window duration. After that sweep the eleventh
  request is allowed, in a fresh window.
\<close>

theorem sweep_removes_running_window:
  "snd (requests ''shop'' 10 300000 [0, 1, 2, 3, 4, 5, 6, 7, 8, 9] Map.empty) ''shop''
     = Some \<lparr>windowStart = 0, count = 10\<rparr>
   \<and> fst (checkRateLimit ''shop'' 10 300000 150001
        (snd (requests ''shop'' 10 300000 [0, 1, 2, 3, 4, 5, 6, 7, 8, 9] Map.empty)))
     = \<lparr>allowed = False, remaining = 0\<rparr>
   \<and> 150000 - 0 < (300000 :: int)
   \<and> sweep 150000
        (snd (requests ''shop'' 10 300000 [0, 1, 2, 3, 4, 5, 6, 7, 8, 9] Map.empty)) ''shop''
     = None
   \<and> fst (checkRateLimit ''shop'' 10 300000 150001
        (sweep 150000
           (snd (requests ''shop'' 10 300000 [0, 1, 2, 3, 4, 5, 6, 7, 8, 9] Map.empty))))
     = \<lparr>allowed = True, remaining = 9\<rparr>"
proof -
  have ws: "snd (requests ''shop'' 10 300000 [0, 1, 2, 3, 4, 5, 6, 7, 8, 9] Map.empty)
      = [''shop'' \<mapsto> \<lparr>windowStart = 0, count = 10\<rparr>]"
    by (simp add: checkRateLimit_def)
  show ?thesis
    unfolding ws by (simp add: checkRateLimit_def sweep_def)
qed

section \<open>Properties of the query cache\<close>

lemma delete_hd: "distinct (map fst ((k, e) # t)) \<Longrightarrow> AList.delete k ((k, e) # t) = t"
  by (auto simp: AList.delete_eq image_iff intro!: filter_True)

lemma update_append: "k \<notin> fst ` set c \<Longrightarrow> AList.update k e c = c @ [(k, e)]"
  by (induction c) auto

lemma MAX_ENTRIES_pos: "0 < MAX_ENTRIES"
  by (simp add: MAX_ENTRIES_def)

lemma cacheSet_shape:
  assumes "distinct (map fst c)"
  shows "cacheSet key v now c =
     (if MAX_ENTRIES \<le> length (AList.delete key c) then tl (AList.delete key c)
      else AList.delete key c) @ [(key, \<lparr>value = v, timestamp = now\<rparr>)]"
proof -
  let ?c1 = "AList.delete key c"
  have d1: "distinct (map fst ?c1)"
    using assms by (rule distinct_delete)
  have k1: "key \<notin> fst ` set ?c1"
    by (rule delete_notin_dom)
  show ?thesis
  proof (cases "MAX_ENTRIES \<le> length ?c1")
    case False
    then show ?thesis
      using k1 by (simp add: cacheSet_def update_append)
  next
    case True
    then obtain oldest e t where c1: "?c1 = (oldest, e) # t"
      using MAX_ENTRIES_pos by (cases ?c1) auto
    have "AList.delete oldest ?c1 = t"
      using d1 unfolding c1 by (rule delete_hd)
    moreover have "key \<notin> fst ` set t"
      using k1 unfolding c1 by auto
    ultimately show ?thesis
      using True by (simp add: cacheSet_def c1 update_append)
  qed
qed

lemma cacheSet_distinct:
  "distinct (map fst c) \<Longrightarrow> distinct (map fst (cacheSet key v now c))"
proof -
  assume d: "distinct (map fst c)"
  let ?c1 = "AList.delete key c"
  have d1: "distinct (map fst ?c1)"
    using d by (rule distinct_delete)
  have k1: "key \<notin> fst ` set ?c1"
    by (rule delete_notin_dom)
  have "distinct (map fst (tl ?c1))" and "key \<notin> fst ` set (tl ?c1)"
    using d1 k1 by (cases ?c1; auto)+
  then show ?thesis
    using d1 k1 by (simp add: cacheSet_shape [OF d])
qed

lemma cacheSet_length:
  assumes "distinct (map fst c)" and "length c \<le> MAX_ENTRIES"
  shows "length (cacheSet key v now c) \<le> MAX_ENTRIES"
proof -
  have "length (AList.delete key c) \<le> MAX_ENTRIES"
    using assms(2) length_delete_le [of key c] by simp
  then show ?thesis
    using MAX_ENTRIES_pos by (auto simp: cacheSet_shape [OF assms(1)])
qed

lemma cacheGet_hit:
  assumes "map_of c key = Some e" and "now - timestamp e \<le> TTL_MS"
  shows "cacheGet key now c = (Some (value e), AList.delete key c @ [(key, e)])"
  using assms by (simp add: cacheGet_def update_append delete_notin_dom)

lemma length_delete_present:
  "map_of c key = Some e \<Longrightarrow> length (AList.delete key c) < length c"
proof (induction c)
  case Nil
  then show ?case by simp
next
  case (Cons p c)
  show ?case
  proof (cases "fst p = key")
    case True
    then show ?thesis
      using length_delete_le [of key c] by (simp add: less_Suc_eq_le)
  next
    case False
    then show ?thesis
      using Cons by (cases p) auto
  qed
qed

lemma cacheGet_distinct:
  "distinct (map fst c) \<Longrightarrow> distinct (map fst (snd (cacheGet key now c)))"
  by (simp add: cacheGet_def distinct_update distinct_delete split: option.splits)

lemma cacheGet_length:
  assumes "distinct (map fst c)"
  shows "length (snd (cacheGet key now c)) \<le> length c"
proof (cases "map_of c key")
  case None
  then show ?thesis by (simp add: cacheGet_def)
next
  case (Some e)
  then show ?thesis
    using length_delete_present [OF Some] length_delete_le [of key c]
    by (simp add: cacheGet_def update_append delete_notin_dom)
qed

lemma cacheFlushShop_inv:
  "distinct (map fst c) \<Longrightarrow> distinct (map fst (cacheFlushShop shop c))"
  "length (cacheFlushShop shop c) \<le> length c"
  by (simp_all add: cacheFlushShop_def distinct_map_filter)

lemma call_inv:
  assumes "distinct (map fst c) \<and> length c \<le> MAX_ENTRIES"
  shows "distinct (map fst (call x c)) \<and> length (call x c) \<le> MAX_ENTRIES"
proof (cases x)
  case (Get key now)
  then show ?thesis
    using assms cacheGet_distinct [of c key now] cacheGet_length [of c key now] by simp
next
  case (Set key v now)
  then show ?thesis
    using assms by (simp add: cacheSet_distinct cacheSet_length)
next
  case (FlushShop shop)
  then show ?thesis
    using assms cacheFlushShop_inv [where c = c and shop = shop] by simp
qed

lemma calls_inv:
  "distinct (map fst c) \<and> length c \<le> MAX_ENTRIES \<Longrightarrow>
   distinct (map fst (calls xs c)) \<and> length (calls xs c) \<le> MAX_ENTRIES"
  by (induction xs arbitrary: c) (simp_all add: call_inv)

lemma length_delete_distinct:
  "distinct (map fst c) \<Longrightarrow> map_of c key = Some e \<Longrightarrow>
   Suc (length (AList.delete key c)) = length c"
proof (induction c)
  case Nil
  then show ?case by simp
next
  case (Cons p c)
  show ?case
  proof (cases "fst p = key")
    case True
    then have "key \<notin> fst ` set c"
      using Cons.prems(1) by auto
    then show ?thesis
      using True by simp
  next
    case False
    then show ?thesis
      using Cons by (cases p) auto
  qed
qed

lemma MAX_ENTRIES_two: "2 \<le> MAX_ENTRIES"
  by (simp add: MAX_ENTRIES_def)

lemma map_of_snoc_other:
  "k \<noteq> k' \<Longrightarrow> map_of (xs @ [(k', v)]) k = map_of xs k"
  by (auto simp: map_add_def split: option.splits)

lemma map_of_snoc_new:
  "k \<notin> fst ` set xs \<Longrightarrow> map_of (xs @ [(k, v)]) k = Some v"
proof -
  assume "k \<notin> fst ` set xs"
  then have "map_of xs k = None"
    by (simp add: map_of_eq_None_iff)
  then show ?thesis
    by (simp add: map_add_def)
qed

lemma cacheSet_keeps_read:
  assumes d: "distinct (map fst c)" and hit: "map_of c k = Some e"
    and fresh: "now - timestamp e \<le> TTL_MS" and other: "k' \<noteq> k"
  shows "map_of (cacheSet k' v' now' (snd (cacheGet k now c))) k = Some e"
proof -
  let ?A = "AList.delete k' (AList.delete k c)"
  let ?c' = "AList.delete k c @ [(k, e)]"
  have get: "snd (cacheGet k now c) = ?c'"
    using cacheGet_hit [OF hit fresh] by simp
  have d': "distinct (map fst ?c')"
    using d by (simp add: distinct_delete delete_notin_dom)
  have c1: "AList.delete k' ?c' = ?A @ [(k, e)]"
    using other by (simp add: AList.delete_eq)
  have kA: "k \<notin> fst ` set ?A"
    using delete_notin_dom [of k c] dom_delete_subset [of k' "AList.delete k c"] by blast
  have "map_of ((if MAX_ENTRIES \<le> length (?A @ [(k, e)]) then tl (?A @ [(k, e)])
                 else ?A @ [(k, e)]) @ [(k', \<lparr>value = v', timestamp = now'\<rparr>)]) k = Some e"
  proof (cases "MAX_ENTRIES \<le> length (?A @ [(k, e)])")
    case False
    then show ?thesis
      by (simp only: if_False map_of_snoc_other [OF other [symmetric]] map_of_snoc_new [OF kA])
  next
    case True
    then have "?A \<noteq> []"
      using MAX_ENTRIES_two by auto
    then have tl: "tl (?A @ [(k, e)]) = tl ?A @ [(k, e)]"
      by simp
    have ktl: "k \<notin> fst ` set (tl ?A)"
      using kA \<open>?A \<noteq> []\<close> by (cases ?A) auto
    show ?thesis
      using True unfolding tl
      by (simp only: if_True map_of_snoc_other [OF other [symmetric]] map_of_snoc_new [OF ktl])
  qed
  then show ?thesis
    unfolding get cacheSet_shape [OF d'] c1 .
qed

lemma cacheSet_evicts_lru:
  assumes d: "distinct (map fst c)" and hit: "map_of c k = Some e"
    and fresh: "now - timestamp e \<le> TTL_MS" and new: "k' \<notin> fst ` set c"
    and full: "MAX_ENTRIES \<le> length c"
  shows "cacheSet k' v' now' (snd (cacheGet k now c)) =
           tl (AList.delete k c) @ [(k, e), (k', \<lparr>value = v', timestamp = now'\<rparr>)]"
proof -
  let ?c' = "AList.delete k c @ [(k, e)]"
  have get: "snd (cacheGet k now c) = ?c'"
    using cacheGet_hit [OF hit fresh] by simp
  have d': "distinct (map fst ?c')"
    using d by (simp add: distinct_delete delete_notin_dom)
  have kin: "k \<in> fst ` set c"
    using hit by (meson domI dom_map_of_conv_image_fst[THEN equalityD1, THEN subsetD] )
  have "k' \<noteq> k"
    using new kin by blast
  moreover have "k' \<notin> fst ` set (AList.delete k c)"
    using new dom_delete_subset [of k c] by blast
  ultimately have c1: "AList.delete k' ?c' = ?c'"
    by (intro delete_id) auto
  have len: "length ?c' = length c"
    using length_delete_distinct [OF d hit] by simp
  have ne: "AList.delete k c \<noteq> []"
    using len full MAX_ENTRIES_two by auto
  show ?thesis
    unfolding get cacheSet_shape [OF d'] c1 len
    using full ne by simp
qed

lemma cacheSet_lookup:
  "map_of (cacheSet key v now c) key = Some \<lparr>value = v, timestamp = now\<rparr>"
  by (simp add: cacheSet_def Let_def update_conv')

lemma cacheGet_after_set:
  "fst (cacheGet key now (cacheSet key v T c)) = (if now - T > TTL_MS then None else Some v)"
  "now - T > TTL_MS \<Longrightarrow> map_of (snd (cacheGet key now (cacheSet key v T c))) key = None"
  by (simp_all add: cacheGet_def cacheSet_lookup delete_conv')

lemma filled_pos:
  "0 < n \<Longrightarrow> filled n k = (k, \<lparr>value = n - 1, timestamp = 0\<rparr>) # filled (n - 1) (CHR ''k'' # k)"
  by (cases n) simp_all

lemma length_filled: "length (filled n k) = n"
  by (induction n k rule: filled.induct) simp_all

lemma keys_filled: "fst ` set (filled n k) = (\<lambda>j. replicate j CHR ''k'' @ k) ` {..<n}"
proof (induction n k rule: filled.induct)
  case (1 k)
  then show ?case by simp
next
  case (2 n k)
  have "(\<lambda>j. replicate j CHR ''k'' @ k) ` {..<Suc n} =
        insert k ((\<lambda>j. replicate j CHR ''k'' @ (CHR ''k'' # k)) ` {..<n})"
    by (auto simp: lessThan_Suc_eq_insert_0 image_iff replicate_app_Cons_same)
  then show ?case
    using 2 by simp
qed

lemma distinct_filled: "distinct (map fst (filled n k))"
proof (induction n k rule: filled.induct)
  case (1 k)
  then show ?case by simp
next
  case (2 n k)
  have "k \<notin> fst ` set (filled n (CHR ''k'' # k))"
    unfolding keys_filled by (auto dest: arg_cong [where f = length])
  then show ?case
    using 2 by simp
qed

text \<open>
  C6. Starting from the empty cache, no sequence of \<^verbatim>\<open>cacheGet\<close>, \<^verbatim>\<open>cacheSet\<close>
  and \<^verbatim>\<open>cacheFlushShop\<close> calls ever leaves more than \<open>MAX_ENTRIES = 500\<close> entries
  (and the keys stay distinct). \<^verbatim>\<open>cacheSet\<close> removes an existing entry for the
  key, then, if that leaves \<open>MAX_ENTRIES\<close> entries or more, drops exactly the first
  entry in iteration order, then appends the new entry with the current timestamp
  at the most-recently-used end. A hit of \<^verbatim>\<open>cacheGet\<close> moves the entry read to
  that end, so a \<^verbatim>\<open>cacheSet\<close> of another key right after it keeps the entry read;
  when the cache was full and the key set is new, the entry evicted is the first of
  the remaining entries, the least recently used one.
\<close>

theorem cache_capacity_lru:
  "(length (calls xs ([] :: 'v cache)) \<le> MAX_ENTRIES
      \<and> distinct (map fst (calls xs ([] :: 'v cache))) \<and> MAX_ENTRIES = 500)
   \<and> (distinct (map fst c) \<longrightarrow>
        cacheSet key v now c =
          (if MAX_ENTRIES \<le> length (AList.delete key c) then tl (AList.delete key c)
           else AList.delete key c) @ [(key, \<lparr>value = v, timestamp = now\<rparr>)])
   \<and> (distinct (map fst c) \<and> map_of c k = Some e \<and> t - timestamp e \<le> TTL_MS \<and> k' \<noteq> k \<longrightarrow>
        fst (cacheGet k t c) = Some (value e)
        \<and> map_of (cacheSet k' v' t' (snd (cacheGet k t c))) k = Some e)
   \<and> (distinct (map fst c) \<and> map_of c k = Some e \<and> t - timestamp e \<le> TTL_MS
        \<and> k' \<notin> fst ` set c \<and> MAX_ENTRIES \<le> length c \<longrightarrow>
        cacheSet k' v' t' (snd (cacheGet k t c)) =
          tl (AList.delete k c) @ [(k, e), (k', \<lparr>value = v', timestamp = t'\<rparr>)])"
proof (intro conjI impI)
  have "distinct (map fst ([] :: 'v cache)) \<and> length ([] :: 'v cache) \<le> MAX_ENTRIES"
    by simp
  then have inv: "distinct (map fst (calls xs ([] :: 'v cache)))
      \<and> length (calls xs ([] :: 'v cache)) \<le> MAX_ENTRIES"
    by (rule calls_inv)
  from inv show "length (calls xs ([] :: 'v cache)) \<le> MAX_ENTRIES"
    by (rule conjunct2)
  from inv show "distinct (map fst (calls xs ([] :: 'v cache)))"
    by (rule conjunct1)
  show "MAX_ENTRIES = 500"
    by (rule MAX_ENTRIES_def)
next
  assume "distinct (map fst c)"
  then show "cacheSet key v now c =
          (if MAX_ENTRIES \<le> length (AList.delete key c) then tl (AList.delete key c)
           else AList.delete key c) @ [(key, \<lparr>value = v, timestamp = now\<rparr>)]"
    by (rule cacheSet_shape)
next
  assume a: "distinct (map fst c) \<and> map_of c k = Some e \<and> t - timestamp e \<le> TTL_MS \<and> k' \<noteq> k"
  then show "fst (cacheGet k t c) = Some (value e)"
    by (simp add: cacheGet_hit)
  from a show "map_of (cacheSet k' v' t' (snd (cacheGet k t c))) k = Some e"
    by (intro cacheSet_keeps_read) simp_all
next
  assume "distinct (map fst c) \<and> map_of c k = Some e \<and> t - timestamp e \<le> TTL_MS
        \<and> k' \<notin> fst ` set c \<and> MAX_ENTRIES \<le> length c"
  then show "cacheSet k' v' t' (snd (cacheGet k t c)) =
          tl (AList.delete k c) @ [(k, e), (k', \<lparr>value = v', timestamp = t'\<rparr>)]"
    by (intro cacheSet_evicts_lru) simp_all
qed

theorem cache_capacity_lru_witness:
  "fst (cacheGet ''k'' 5 (filled 500 ''k'')) = Some 499
   \<and> cacheSet ''new'' 0 6 (snd (cacheGet ''k'' 5 (filled 500 ''k''))) =
       filled 498 ''kkk'' @ [(''k'', \<lparr>value = 499, timestamp = 0\<rparr>),
                             (''new'', \<lparr>value = 0, timestamp = 6\<rparr>)]
   \<and> length (filled 500 ''k'') = MAX_ENTRIES
   \<and> fst (hd (filled 500 ''k'')) = ''k'' \<and> fst (hd (tl (filled 500 ''k''))) = ''kk''"
proof -
  let ?c = "filled 500 ''k''"
  let ?e = "\<lparr>value = 499 :: nat, timestamp = 0\<rparr>"
  have f1: "?c = (''k'', ?e) # filled 499 ''kk''"
    using filled_pos [of 500 "''k''"] by simp
  have f2: "filled 499 ''kk'' = (''kk'', \<lparr>value = 498, timestamp = 0\<rparr>) # filled 498 ''kkk''"
    using filled_pos [of 499 "''kk''"] by simp
  have d: "distinct (map fst ?c)"
    by (rule distinct_filled)
  have hit: "map_of ?c ''k'' = Some ?e"
    unfolding f1 by simp
  have h1: "fst (hd ?c) = ''k''"
    unfolding f1 by simp
  have h2: "fst (hd (tl ?c)) = ''kk''"
    unfolding f1 f2 by simp
  have fresh: "5 - timestamp ?e \<le> TTL_MS"
    by (simp add: TTL_MS_def)
  have new: "''new'' \<notin> fst ` set ?c"
    unfolding keys_filled by (auto simp: append_eq_Cons_conv Cons_replicate_eq)
  have full: "MAX_ENTRIES \<le> length ?c"
    by (simp add: length_filled MAX_ENTRIES_def)
  have other: "''new'' \<noteq> ''k''"
    by simp
  note inst = cache_capacity_lru [where c = ?c and k = "''k''" and e = ?e and t = 5
      and k' = "''new''" and v' = 0 and t' = 6 and xs = "[]" and key = "''k''" and v = 0 and now = 0]
  from inst d hit fresh other have r3: "fst (cacheGet ''k'' 5 ?c) = Some (value ?e)"
    by blast
  from inst d hit fresh new full have r4: "cacheSet ''new'' 0 6 (snd (cacheGet ''k'' 5 ?c)) =
      tl (AList.delete ''k'' ?c) @ [(''k'', ?e), (''new'', \<lparr>value = 0, timestamp = 6\<rparr>)]"
    by blast
  have "AList.delete ''k'' ?c = filled 499 ''kk''"
    using d unfolding f1 by (rule delete_hd)
  then have tl: "tl (AList.delete ''k'' ?c) = filled 498 ''kkk''"
    by (simp add: f2)
  show ?thesis
    using r3 r4 h1 h2 unfolding tl by (simp add: length_filled MAX_ENTRIES_def)
qed

text \<open>
  C7. \<^verbatim>\<open>cacheGet\<close> returns \<^verbatim>\<open>undefined\<close> and changes nothing when the key has no
  entry; returns \<^verbatim>\<open>undefined\<close> and deletes the entry when \<open>now - timestamp > TTL_MS\<close>
  (30 minutes), which is checked only at this read; otherwise returns the stored
  value and moves the entry, timestamp unchanged, to the most-recently-used end.
  So an entry set at time \<open>T\<close> is returned at \<open>T + TTL_MS - eps\<close> for every \<open>eps \<ge> 0\<close>
  and is absent, and removed, at \<open>T + TTL_MS + eps\<close> for every \<open>eps > 0\<close>.
\<close>

theorem cacheGet_ttl:
  "(map_of c key = None \<longrightarrow> cacheGet key now c = (None, c))
   \<and> (map_of c key = Some e \<and> now - timestamp e > TTL_MS \<longrightarrow>
        cacheGet key now c = (None, AList.delete key c)
        \<and> map_of (AList.delete key c) key = None)
   \<and> (map_of c key = Some e \<and> now - timestamp e \<le> TTL_MS \<longrightarrow>
        cacheGet key now c = (Some (value e), AList.delete key c @ [(key, e)]))
   \<and> (0 \<le> eps \<longrightarrow>
        fst (cacheGet key (T + TTL_MS - eps) (cacheSet key v T c)) = Some v)
   \<and> (0 < eps \<longrightarrow>
        fst (cacheGet key (T + TTL_MS + eps) (cacheSet key v T c)) = None
        \<and> map_of (snd (cacheGet key (T + TTL_MS + eps) (cacheSet key v T c))) key = None)
   \<and> TTL_MS = 1800000"
proof (intro conjI impI)
  assume "map_of c key = None"
  then show "cacheGet key now c = (None, c)"
    by (simp add: cacheGet_def)
next
  assume a: "map_of c key = Some e \<and> now - timestamp e > TTL_MS"
  then show "cacheGet key now c = (None, AList.delete key c)"
    by (simp add: cacheGet_def)
  show "map_of (AList.delete key c) key = None"
    by (simp add: delete_conv')
next
  assume "map_of c key = Some e \<and> now - timestamp e \<le> TTL_MS"
  then show "cacheGet key now c = (Some (value e), AList.delete key c @ [(key, e)])"
    by (simp add: cacheGet_hit)
next
  assume "0 \<le> eps"
  then show "fst (cacheGet key (T + TTL_MS - eps) (cacheSet key v T c)) = Some v"
    by (simp add: cacheGet_after_set(1))
next
  assume e: "0 < eps"
  then show "fst (cacheGet key (T + TTL_MS + eps) (cacheSet key v T c)) = None"
    by (simp add: cacheGet_after_set(1))
  from e have "T + TTL_MS + eps - T > TTL_MS"
    by simp
  then show "map_of (snd (cacheGet key (T + TTL_MS + eps) (cacheSet key v T c))) key = None"
    by (rule cacheGet_after_set(2))
next
  show "TTL_MS = 1800000"
    by (simp add: TTL_MS_def)
qed

theorem cacheGet_ttl_witness:
  "cacheGet ''s::all::red shoes'' 2000 [(''s::all::hats'', \<lparr>value = ''h'', timestamp = 10\<rparr>)]
     = (None, [(''s::all::hats'', \<lparr>value = ''h'', timestamp = 10\<rparr>)])
   \<and> cacheGet ''a'' 1800011 [(''a'', \<lparr>value = ''x'', timestamp = 10\<rparr>),
                              (''b'', \<lparr>value = ''y'', timestamp = 20\<rparr>)]
     = (None, [(''b'', \<lparr>value = ''y'', timestamp = 20\<rparr>)])
   \<and> cacheGet ''a'' 1800010 [(''a'', \<lparr>value = ''x'', timestamp = 10\<rparr>),
                              (''b'', \<lparr>value = ''y'', timestamp = 20\<rparr>)]
     = (Some ''x'', [(''b'', \<lparr>value = ''y'', timestamp = 20\<rparr>),
                     (''a'', \<lparr>value = ''x'', timestamp = 10\<rparr>)])
   \<and> fst (cacheGet ''a'' (1000 + TTL_MS - 1) (cacheSet ''a'' ''x'' 1000 [])) = Some ''x''
   \<and> fst (cacheGet ''a'' (1000 + TTL_MS + 1) (cacheSet ''a'' ''x'' 1000 [])) = None"
proof -
  let ?c1 = "[(''s::all::hats'', \<lparr>value = ''h'', timestamp = 10\<rparr>)]"
  let ?c2 = "[(''a'', \<lparr>value = ''x'', timestamp = 10\<rparr>),
              (''b'', \<lparr>value = ''y'', timestamp = 20\<rparr>)]"
  have "map_of ?c1 ''s::all::red shoes'' = None"
    by simp
  with cacheGet_ttl [where c = ?c1 and key = "''s::all::red shoes''" and now = 2000]
  have r1: "cacheGet ''s::all::red shoes'' 2000 ?c1 = (None, ?c1)"
    by blast
  have "map_of ?c2 ''a'' = Some \<lparr>value = ''x'', timestamp = 10\<rparr>
      \<and> 1800011 - timestamp \<lparr>value = ''x'', timestamp = 10\<rparr> > TTL_MS"
    by (simp add: TTL_MS_def)
  with cacheGet_ttl [where c = ?c2 and key = "''a''" and now = 1800011
      and e = "\<lparr>value = ''x'', timestamp = 10\<rparr>"]
  have r2: "cacheGet ''a'' 1800011 ?c2 = (None, AList.delete ''a'' ?c2)"
    by blast
  have "map_of ?c2 ''a'' = Some \<lparr>value = ''x'', timestamp = 10\<rparr>
      \<and> 1800010 - timestamp \<lparr>value = ''x'', timestamp = 10\<rparr> \<le> TTL_MS"
    by (simp add: TTL_MS_def)
  with cacheGet_ttl [where c = ?c2 and key = "''a''" and now = 1800010
      and e = "\<lparr>value = ''x'', timestamp = 10\<rparr>"]
  have r3: "cacheGet ''a'' 1800010 ?c2 =
      (Some (value \<lparr>value = ''x'', timestamp = 10\<rparr>),
       AList.delete ''a'' ?c2 @ [(''a'', \<lparr>value = ''x'', timestamp = 10\<rparr>)])"
    by blast
  from cacheGet_ttl [where eps = 1 and key = "''a''" and T = 1000 and v = "''x''" and c = "[]"]
  have r4: "fst (cacheGet ''a'' (1000 + TTL_MS - 1) (cacheSet ''a'' ''x'' 1000 [])) = Some ''x''"
    and r5: "fst (cacheGet ''a'' (1000 + TTL_MS + 1) (cacheSet ''a'' ''x'' 1000 [])) = None"
    by simp_all
  show ?thesis
    using r1 r2 r3 r4 r5 by simp
qed

section \<open>Properties of the fuzzy matcher\<close>

lemma includesStr_iff: "includesStr hay needle \<longleftrightarrow> (\<exists>ps ss. hay = ps @ needle @ ss)"
proof -
  have "includesStr hay needle \<longleftrightarrow> sublist needle hay"
    by (induction hay) (auto simp: sublist_Cons_right)
  then show ?thesis
    by (simp add: sublist_def)
qed

lemma isSubstringMatch_iff:
  "isSubstringMatch toLowerCase v k \<longleftrightarrow>
     3 \<le> length (toLowerCase v)
     \<and> (includesStr (toLowerCase k) (toLowerCase v)
        \<or> includesStr (toLowerCase v) (toLowerCase k))"
  by (simp add: isSubstringMatch_def Let_def)

lemma find_first:
  assumes "i < length xs" and "P (xs ! i)" and "\<forall>j < i. \<not> P (xs ! j)"
  shows "find P xs = Some (xs ! i)"
  using assms by (auto simp: find_Some_iff)

lemma find_none: "(\<forall>x \<in> set xs. \<not> P x) \<Longrightarrow> find P xs = None"
  by (simp add: find_None_iff)

lemma fuzzyMatchValue_exact:
  assumes v: "v \<noteq> []"
    and i: "i < length known"
    and ex: "toLowerCase (known ! i) = toLowerCase v"
    and ne: "known ! i \<noteq> []"
    and first: "\<forall>j < i. toLowerCase (known ! j) \<noteq> toLowerCase v"
  shows "fuzzyMatchValue toLowerCase search v known thr = known ! i"
proof -
  have "find (\<lambda>k. toLowerCase k = toLowerCase v) known = Some (known ! i)"
    using i ex first by (intro find_first) auto
  then show ?thesis
    using v i ne by (auto simp: fuzzyMatchValue_def Let_def)
qed

lemma fuzzyMatchValue_substring:
  assumes v: "v \<noteq> []"
    and noex: "\<forall>k \<in> set known. toLowerCase k \<noteq> toLowerCase v"
    and i: "i < length known"
    and sub: "isSubstringMatch toLowerCase v (known ! i)"
    and first: "\<forall>j < i. \<not> isSubstringMatch toLowerCase v (known ! j)"
  shows "fuzzyMatchValue toLowerCase search v known thr = known ! i"
proof -
  have "find (\<lambda>k. toLowerCase k = toLowerCase v) known = None"
    using noex by (intro find_none) auto
  moreover have "find (\<lambda>known. isSubstringMatch toLowerCase v known) known = Some (known ! i)"
    using i sub first by (intro find_first) auto
  ultimately show ?thesis
    using v i by (auto simp: fuzzyMatchValue_def Let_def)
qed

lemma fuzzyMatchValue_approximate:
  assumes noex: "\<forall>k \<in> set known. toLowerCase k \<noteq> toLowerCase v"
    and nosub: "\<forall>k \<in> set known. \<not> isSubstringMatch toLowerCase v k"
    and v: "v \<noteq> []" and known: "known \<noteq> []"
  shows "fuzzyMatchValue toLowerCase search v known thr =
           (case search thr known v of r # _ \<Rightarrow> r | [] \<Rightarrow> v)"
proof -
  have "find (\<lambda>k. toLowerCase k = toLowerCase v) known = None"
    using noex by (intro find_none) auto
  moreover have "find (\<lambda>known. isSubstringMatch toLowerCase v known) known = None"
    using nosub by (intro find_none) auto
  ultimately show ?thesis
    using v known by (simp add: fuzzyMatchValue_def Let_def)
qed

lemma fuzzyMatchValue_trivial:
  "v = [] \<or> known = [] \<Longrightarrow> fuzzyMatchValue toLowerCase search v known thr = v"
  by (auto simp: fuzzyMatchValue_def)

lemmas units_eval = fuzzyMatchValue_def isSubstringMatch_def unitsLowerCase_def lowerUnit_def
  Let_def

text \<open>
  C4 (as stated). The claim gates the substring step by the length of the
  candidate. The candidate of the two code units U+0061 U+0130 (a, capital I with
  dot above) has length 2, below 3; no known value equals it up to case; and the
  approximate search finds nothing (the threshold is 2, above every similarity). As stated,
  the candidate would come back unchanged. The code gates on the lower-cased
  candidate, which has the three code units U+0061 U+0069 U+0307 and is contained
  in the known value of the four code units U+0061 U+0069 U+0307 U+0078: the
  substring step returns that known value.
\<close>

theorem fuzzyMatchValue_gate_counterexample:
  "length [97, 304 :: nat] < 3
   \<and> unitsLowerCase [97, 105, 775, 120] \<noteq> unitsLowerCase [97, 304]
   \<and> (\<lambda>thr known v. if 1 < thr then [] else known) (2 :: rat) [[97, 105, 775, 120 :: nat]] [97, 304 :: nat] = []
   \<and> fuzzyMatchValue unitsLowerCase (\<lambda>thr known v. if 1 < thr then [] else known)
        [97, 304] [[97, 105, 775, 120]] 2
        = [97, 105, 775, 120]
   \<and> [97, 105, 775, 120] \<noteq> [97, 304 :: nat]"
  by (simp add: units_eval)

text \<open>
  C4 (amended). \<^verbatim>\<open>fuzzyMatchValue\<close> applies its steps in strict priority order,
  for every lowering, searcher, candidate \<open>v\<close>, vocabulary \<open>known\<close> and threshold.
  (1) For a non-empty candidate, if some known value equals it up to case, the first
  such value in vocabulary order is returned, whatever the later steps would find
  (that value is tested for truthiness, so it has to be non-empty, which it is
  whenever lowering maps only the empty string to the empty string). (2) Otherwise,
  if the lower-cased candidate has at least 3 code units and some known value
  contains the candidate or is contained in it up to case, the first such value in
  vocabulary order is returned. (3) Otherwise, for a non-empty candidate and
  vocabulary, the first result of the approximate search is returned, or the
  candidate itself when the search finds nothing. (4) An empty candidate or an
  empty vocabulary returns the candidate unchanged at once, without any search.
\<close>

theorem fuzzyMatchValue_priority:
  "(v \<noteq> [] \<and> i < length known \<and> toLowerCase (known ! i) = toLowerCase v
      \<and> known ! i \<noteq> []
      \<and> (\<forall>j < i. toLowerCase (known ! j) \<noteq> toLowerCase v) \<longrightarrow>
        fuzzyMatchValue toLowerCase search v known thr = known ! i)
   \<and> (v \<noteq> [] \<and> (\<forall>k \<in> set known. toLowerCase k \<noteq> toLowerCase v)
      \<and> 3 \<le> length (toLowerCase v) \<and> i < length known
      \<and> (includesStr (toLowerCase (known ! i)) (toLowerCase v)
          \<or> includesStr (toLowerCase v) (toLowerCase (known ! i)))
      \<and> (\<forall>j < i. \<not> includesStr (toLowerCase (known ! j)) (toLowerCase v)
                 \<and> \<not> includesStr (toLowerCase v) (toLowerCase (known ! j))) \<longrightarrow>
        fuzzyMatchValue toLowerCase search v known thr = known ! i)
   \<and> ((\<forall>k \<in> set known. toLowerCase k \<noteq> toLowerCase v)
      \<and> (length (toLowerCase v) < 3
          \<or> (\<forall>k \<in> set known. \<not> includesStr (toLowerCase k) (toLowerCase v)
                               \<and> \<not> includesStr (toLowerCase v) (toLowerCase k)))
      \<and> v \<noteq> [] \<and> known \<noteq> [] \<longrightarrow>
        fuzzyMatchValue toLowerCase search v known thr =
          (case search thr known v of r # _ \<Rightarrow> r | [] \<Rightarrow> v))
   \<and> (v = [] \<or> known = [] \<longrightarrow> fuzzyMatchValue toLowerCase search v known thr = v)"
proof (intro conjI impI)
  assume "v \<noteq> [] \<and> i < length known \<and> toLowerCase (known ! i) = toLowerCase v
      \<and> known ! i \<noteq> []
      \<and> (\<forall>j < i. toLowerCase (known ! j) \<noteq> toLowerCase v)"
  then show "fuzzyMatchValue toLowerCase search v known thr = known ! i"
    by (intro fuzzyMatchValue_exact) simp_all
next
  assume a: "v \<noteq> [] \<and> (\<forall>k \<in> set known. toLowerCase k \<noteq> toLowerCase v)
      \<and> 3 \<le> length (toLowerCase v) \<and> i < length known
      \<and> (includesStr (toLowerCase (known ! i)) (toLowerCase v)
          \<or> includesStr (toLowerCase v) (toLowerCase (known ! i)))
      \<and> (\<forall>j < i. \<not> includesStr (toLowerCase (known ! j)) (toLowerCase v)
                 \<and> \<not> includesStr (toLowerCase v) (toLowerCase (known ! j)))"
  then have "isSubstringMatch toLowerCase v (known ! i)"
    by (simp add: isSubstringMatch_iff)
  moreover from a have "\<forall>j < i. \<not> isSubstringMatch toLowerCase v (known ! j)"
    by (simp add: isSubstringMatch_iff)
  ultimately show "fuzzyMatchValue toLowerCase search v known thr = known ! i"
    using a by (intro fuzzyMatchValue_substring) simp_all
next
  assume a: "(\<forall>k \<in> set known. toLowerCase k \<noteq> toLowerCase v)
      \<and> (length (toLowerCase v) < 3
          \<or> (\<forall>k \<in> set known. \<not> includesStr (toLowerCase k) (toLowerCase v)
                               \<and> \<not> includesStr (toLowerCase v) (toLowerCase k)))
      \<and> v \<noteq> [] \<and> known \<noteq> []"
  then have "\<forall>k \<in> set known. \<not> isSubstringMatch toLowerCase v k"
    by (auto simp: isSubstringMatch_iff)
  then show "fuzzyMatchValue toLowerCase search v known thr =
          (case search thr known v of r # _ \<Rightarrow> r | [] \<Rightarrow> v)"
    using a by (intro fuzzyMatchValue_approximate) simp_all
next
  assume "v = [] \<or> known = []"
  then show "fuzzyMatchValue toLowerCase search v known thr = v"
    by (rule fuzzyMatchValue_trivial)
qed

theorem fuzzyMatchValue_priority_witness:
  "fuzzyMatchValue asciiLowerCase
      (\<lambda>thr known v. if v = ''sunglases'' then [''Sunglasses''] else [])
      ''sunglasses'' [''Hats'', ''Sunglasses''] DEFAULT_THRESHOLD = ''Sunglasses''
   \<and> fuzzyMatchValue asciiLowerCase
      (\<lambda>thr known v. if v = ''sunglases'' then [''Sunglasses''] else [])
      ''glasses'' [''Hats'', ''Sunglasses'', ''Glasses Case''] DEFAULT_THRESHOLD = ''Sunglasses''
   \<and> fuzzyMatchValue asciiLowerCase
      (\<lambda>thr known v. if v = ''sunglases'' then [''Sunglasses''] else [])
      ''sunglases'' [''Hats'', ''Sunglasses''] DEFAULT_THRESHOLD = ''Sunglasses''
   \<and> fuzzyMatchValue asciiLowerCase
      (\<lambda>thr known v. if v = ''sunglases'' then [''Sunglasses''] else [])
      ''xyzzy'' [''Hats'', ''Sunglasses''] DEFAULT_THRESHOLD = ''xyzzy''
   \<and> fuzzyMatchValue asciiLowerCase
      (\<lambda>thr known v. if v = ''sunglases'' then [''Sunglasses''] else [])
      '''' [''Hats'', ''Sunglasses''] DEFAULT_THRESHOLD = ''''
   \<and> fuzzyMatchValue unitsLowerCase (\<lambda>thr known v. [])
      [99, 97, 102, 233] [[99, 97, 102, 233, 115], [67, 65, 70, 201]] DEFAULT_THRESHOLD
        = [67, 65, 70, 201]
   \<and> fuzzyMatchValue unitsLowerCase (\<lambda>thr known v. [])
      [97, 304] [[97, 105, 775, 120]] DEFAULT_THRESHOLD = [97, 105, 775, 120]"
proof -
  let ?S = "(\<lambda>thr known v. if v = ''sunglases'' then [''Sunglasses''] else []) :: char searcher"
  let ?N = "(\<lambda>thr known v. []) :: nat searcher"
  have low [simp]: "asciiLowerCase ''Hats'' = ''hats''"
    "asciiLowerCase ''Sunglasses'' = ''sunglasses''"
    "asciiLowerCase ''Glasses Case'' = ''glasses case''"
    "asciiLowerCase ''sunglasses'' = ''sunglasses''"
    "asciiLowerCase ''glasses'' = ''glasses''" "asciiLowerCase ''sunglases'' = ''sunglases''"
    "asciiLowerCase ''xyzzy'' = ''xyzzy''"
    by (simp_all add: asciiLowerCase_def lower_char_def)
  have "fuzzyMatchValue asciiLowerCase ?S ''sunglasses'' [''Hats'', ''Sunglasses'']
          DEFAULT_THRESHOLD = [''Hats'', ''Sunglasses''] ! 1"
    by (rule fuzzyMatchValue_priority [where i = 1 and known = "[''Hats'', ''Sunglasses'']"
          and v = "''sunglasses''", THEN conjunct1, rule_format]) simp
  then have r1: "fuzzyMatchValue asciiLowerCase ?S ''sunglasses'' [''Hats'', ''Sunglasses'']
          DEFAULT_THRESHOLD = ''Sunglasses''"
    by simp
  have "fuzzyMatchValue asciiLowerCase ?S ''glasses''
          [''Hats'', ''Sunglasses'', ''Glasses Case'']
          DEFAULT_THRESHOLD = [''Hats'', ''Sunglasses'', ''Glasses Case''] ! 1"
    by (rule fuzzyMatchValue_priority [where i = 1
          and known = "[''Hats'', ''Sunglasses'', ''Glasses Case'']"
          and v = "''glasses''", THEN conjunct2, THEN conjunct1, rule_format]) simp
  then have r2: "fuzzyMatchValue asciiLowerCase ?S ''glasses''
          [''Hats'', ''Sunglasses'', ''Glasses Case''] DEFAULT_THRESHOLD = ''Sunglasses''"
    by simp
  have "fuzzyMatchValue asciiLowerCase ?S ''sunglases'' [''Hats'', ''Sunglasses'']
          DEFAULT_THRESHOLD
          = (case ?S DEFAULT_THRESHOLD [''Hats'', ''Sunglasses''] ''sunglases'' of
               r # _ \<Rightarrow> r | [] \<Rightarrow> ''sunglases'')"
    by (rule fuzzyMatchValue_priority [where known = "[''Hats'', ''Sunglasses'']"
          and v = "''sunglases''", THEN conjunct2, THEN conjunct2, THEN conjunct1, rule_format])
       simp
  then have r3: "fuzzyMatchValue asciiLowerCase ?S ''sunglases'' [''Hats'', ''Sunglasses'']
          DEFAULT_THRESHOLD = ''Sunglasses''"
    by simp
  have "fuzzyMatchValue asciiLowerCase ?S ''xyzzy'' [''Hats'', ''Sunglasses'']
          DEFAULT_THRESHOLD
          = (case ?S DEFAULT_THRESHOLD [''Hats'', ''Sunglasses''] ''xyzzy'' of
               r # _ \<Rightarrow> r | [] \<Rightarrow> ''xyzzy'')"
    by (rule fuzzyMatchValue_priority [where known = "[''Hats'', ''Sunglasses'']"
          and v = "''xyzzy''", THEN conjunct2, THEN conjunct2, THEN conjunct1, rule_format])
       simp
  then have r4: "fuzzyMatchValue asciiLowerCase ?S ''xyzzy'' [''Hats'', ''Sunglasses'']
          DEFAULT_THRESHOLD = ''xyzzy''"
    by simp
  have r5: "fuzzyMatchValue asciiLowerCase ?S '''' [''Hats'', ''Sunglasses'']
          DEFAULT_THRESHOLD = ''''"
    by (rule fuzzyMatchValue_priority [where known = "[''Hats'', ''Sunglasses'']"
          and v = "''''", THEN conjunct2, THEN conjunct2, THEN conjunct2, rule_format]) simp
  have "fuzzyMatchValue unitsLowerCase ?N [99, 97, 102, 233]
          [[99, 97, 102, 233, 115], [67, 65, 70, 201]] DEFAULT_THRESHOLD
          = [[99, 97, 102, 233, 115], [67, 65, 70, 201]] ! 1"
    by (rule fuzzyMatchValue_priority [where i = 1
          and known = "[[99, 97, 102, 233, 115], [67, 65, 70, 201]]"
          and v = "[99, 97, 102, 233]", THEN conjunct1, rule_format])
       (simp add: unitsLowerCase_def lowerUnit_def)
  then have r6: "fuzzyMatchValue unitsLowerCase ?N [99, 97, 102, 233]
          [[99, 97, 102, 233, 115], [67, 65, 70, 201]] DEFAULT_THRESHOLD = [67, 65, 70, 201]"
    by simp
  have "fuzzyMatchValue unitsLowerCase ?N [97, 304] [[97, 105, 775, 120]] DEFAULT_THRESHOLD
          = [[97, 105, 775, 120]] ! 0"
    by (rule fuzzyMatchValue_priority [where i = 0 and known = "[[97, 105, 775, 120]]"
          and v = "[97, 304]", THEN conjunct2, THEN conjunct1, rule_format])
       (simp add: unitsLowerCase_def lowerUnit_def)
  then have r7: "fuzzyMatchValue unitsLowerCase ?N [97, 304] [[97, 105, 775, 120]]
          DEFAULT_THRESHOLD = [97, 105, 775, 120]"
    by simp
  show ?thesis
    using r1 r2 r3 r4 r5 r6 r7 by (intro conjI)
qed

lemma correctProductType_fields:
  "productType (correctProductType toLowerCase search t c) =
     (case productType c of
        Val s \<Rightarrow> if s \<noteq> [] \<and> productTypes t \<noteq> []
                 then Val (fuzzyMatchValue toLowerCase search s (productTypes t) DEFAULT_THRESHOLD)
                 else Val s
      | x \<Rightarrow> x)"
  "productVendor (correctProductType toLowerCase search t c) = productVendor c"
  "tag (correctProductType toLowerCase search t c) = tag c"
  "available (correctProductType toLowerCase search t c) = available c"
  "price (correctProductType toLowerCase search t c) = price c"
  "variantOption (correctProductType toLowerCase search t c) = variantOption c"
  by (simp_all add: correctProductType_def split: field.splits)

lemma correctProductVendor_fields:
  "productVendor (correctProductVendor toLowerCase search t c) =
     (case productVendor c of
        Val s \<Rightarrow> if s \<noteq> [] \<and> vendors t \<noteq> []
                 then Val (fuzzyMatchValue toLowerCase search s (vendors t) DEFAULT_THRESHOLD)
                 else Val s
      | x \<Rightarrow> x)"
  "productType (correctProductVendor toLowerCase search t c) = productType c"
  "tag (correctProductVendor toLowerCase search t c) = tag c"
  "available (correctProductVendor toLowerCase search t c) = available c"
  "price (correctProductVendor toLowerCase search t c) = price c"
  "variantOption (correctProductVendor toLowerCase search t c) = variantOption c"
  by (simp_all add: correctProductVendor_def split: field.splits)

lemma correctTag_fields:
  "tag (correctTag toLowerCase search t c) =
     (case tag c of
        Val s \<Rightarrow> if s \<noteq> [] \<and> tags t \<noteq> []
                 then Val (fuzzyMatchValue toLowerCase search s (tags t) DEFAULT_THRESHOLD)
                 else Val s
      | x \<Rightarrow> x)"
  "productType (correctTag toLowerCase search t c) = productType c"
  "productVendor (correctTag toLowerCase search t c) = productVendor c"
  "available (correctTag toLowerCase search t c) = available c"
  "price (correctTag toLowerCase search t c) = price c"
  "variantOption (correctTag toLowerCase search t c) = variantOption c"
  by (simp_all add: correctTag_def split: field.splits)

lemma correctVariantOption_fields:
  "variantOption (correctVariantOption toLowerCase search t c) =
     (case variantOption c of
        Val vo \<Rightarrow>
          if variantOptions t \<noteq> []
          then
            let matchedName = fuzzyMatchValue toLowerCase search (variant_option.name vo)
                                (map option_group.name (variantOptions t)) DEFAULT_THRESHOLD
            in Val \<lparr>variant_option.name = matchedName,
                    variant_option.value =
                      (case find (\<lambda>opt. toLowerCase (option_group.name opt) = toLowerCase matchedName)
                              (variantOptions t) of
                         Some g \<Rightarrow> fuzzyMatchValue toLowerCase search (variant_option.value vo) (values g)
                                     DEFAULT_THRESHOLD
                       | None \<Rightarrow> variant_option.value vo)\<rparr>
          else Val vo
      | x \<Rightarrow> x)"
  "productType (correctVariantOption toLowerCase search t c) = productType c"
  "productVendor (correctVariantOption toLowerCase search t c) = productVendor c"
  "tag (correctVariantOption toLowerCase search t c) = tag c"
  "available (correctVariantOption toLowerCase search t c) = available c"
  "price (correctVariantOption toLowerCase search t c) = price c"
  by (auto simp: correctVariantOption_def Let_def fuzzyMatchValue_trivial
        split: field.splits option.splits)

lemmas fcf_fields = fuzzyCorrectFilter_def correctVariantOption_fields correctTag_fields
  correctProductVendor_fields correctProductType_fields

lemma fcf_productType:
  "productType (fuzzyCorrectFilter toLowerCase search t f) =
     (case productType f of
        Val s \<Rightarrow> if s \<noteq> [] \<and> productTypes t \<noteq> []
                 then Val (fuzzyMatchValue toLowerCase search s (productTypes t) DEFAULT_THRESHOLD)
                 else Val s
      | x \<Rightarrow> x)"
  by (simp only: fcf_fields)

lemma fcf_productVendor:
  "productVendor (fuzzyCorrectFilter toLowerCase search t f) =
     (case productVendor f of
        Val s \<Rightarrow> if s \<noteq> [] \<and> vendors t \<noteq> []
                 then Val (fuzzyMatchValue toLowerCase search s (vendors t) DEFAULT_THRESHOLD)
                 else Val s
      | x \<Rightarrow> x)"
  by (simp only: fcf_fields)

lemma fcf_tag:
  "tag (fuzzyCorrectFilter toLowerCase search t f) =
     (case tag f of
        Val s \<Rightarrow> if s \<noteq> [] \<and> tags t \<noteq> []
                 then Val (fuzzyMatchValue toLowerCase search s (tags t) DEFAULT_THRESHOLD)
                 else Val s
      | x \<Rightarrow> x)"
  by (simp only: fcf_fields)

lemma fcf_price: "price (fuzzyCorrectFilter toLowerCase search t f) = price f"
  by (simp only: fcf_fields)

lemma fcf_available: "available (fuzzyCorrectFilter toLowerCase search t f) = available f"
  by (simp only: fcf_fields)

lemma fcf_variantOption:
  "variantOption (fuzzyCorrectFilter toLowerCase search t f) =
     (case variantOption f of
        Val vo \<Rightarrow>
          if variantOptions t \<noteq> []
          then
            let matchedName = fuzzyMatchValue toLowerCase search (variant_option.name vo)
                                (map option_group.name (variantOptions t)) DEFAULT_THRESHOLD
            in Val \<lparr>variant_option.name = matchedName,
                    variant_option.value =
                      (case find (\<lambda>opt. toLowerCase (option_group.name opt) = toLowerCase matchedName)
                              (variantOptions t) of
                         Some g \<Rightarrow> fuzzyMatchValue toLowerCase search (variant_option.value vo) (values g)
                                     DEFAULT_THRESHOLD
                       | None \<Rightarrow> variant_option.value vo)\<rparr>
          else Val vo
      | x \<Rightarrow> x)"
  by (simp only: fcf_fields)

lemma fcf_absent_iff:
  "productType (fuzzyCorrectFilter toLowerCase search t f) = Absent \<longleftrightarrow> productType f = Absent"
  "productVendor (fuzzyCorrectFilter toLowerCase search t f) = Absent \<longleftrightarrow> productVendor f = Absent"
  "tag (fuzzyCorrectFilter toLowerCase search t f) = Absent \<longleftrightarrow> tag f = Absent"
  "variantOption (fuzzyCorrectFilter toLowerCase search t f) = Absent \<longleftrightarrow> variantOption f = Absent"
  by (simp_all add: fcf_productType fcf_productVendor fcf_tag fcf_variantOption Let_def
        split: field.splits)

lemma fcf_populated_iff:
  "populated (productType (fuzzyCorrectFilter toLowerCase search t f)) \<longleftrightarrow> populated (productType f)"
  "populated (productVendor (fuzzyCorrectFilter toLowerCase search t f)) \<longleftrightarrow> populated (productVendor f)"
  "populated (tag (fuzzyCorrectFilter toLowerCase search t f)) \<longleftrightarrow> populated (tag f)"
  "populated (variantOption (fuzzyCorrectFilter toLowerCase search t f)) \<longleftrightarrow> populated (variantOption f)"
  by (simp_all add: fcf_productType fcf_productVendor fcf_tag fcf_variantOption Let_def
        split: field.splits)

lemma fcf_objectKeys: "objectKeys (fuzzyCorrectFilter toLowerCase search t f) = objectKeys f"
  by (simp only: objectKeys_def fcf_absent_iff fcf_price fcf_available)

lemma fcf_populatedKeys: "populatedKeys (fuzzyCorrectFilter toLowerCase search t f) = populatedKeys f"
  by (simp only: populatedKeys_def fcf_populated_iff fcf_price fcf_available)

lemma fcf_not_Val:
  "(\<forall>s. productType f \<noteq> Val s) \<Longrightarrow> productType (fuzzyCorrectFilter toLowerCase search t f) = productType f"
  "(\<forall>s. productVendor f \<noteq> Val s) \<Longrightarrow> productVendor (fuzzyCorrectFilter toLowerCase search t f) = productVendor f"
  "(\<forall>s. tag f \<noteq> Val s) \<Longrightarrow> tag (fuzzyCorrectFilter toLowerCase search t f) = tag f"
  "(\<forall>s. variantOption f \<noteq> Val s) \<Longrightarrow>
     variantOption (fuzzyCorrectFilter toLowerCase search t f) = variantOption f"
  by (simp_all add: fcf_productType fcf_productVendor fcf_tag fcf_variantOption
        split: field.splits)

lemma fcf_Val:
  "productType f = Val s \<Longrightarrow> productType (fuzzyCorrectFilter toLowerCase search t f) =
     Val (if s \<noteq> [] \<and> productTypes t \<noteq> []
          then fuzzyMatchValue toLowerCase search s (productTypes t) DEFAULT_THRESHOLD else s)"
  "productVendor f = Val s \<Longrightarrow> productVendor (fuzzyCorrectFilter toLowerCase search t f) =
     Val (if s \<noteq> [] \<and> vendors t \<noteq> []
          then fuzzyMatchValue toLowerCase search s (vendors t) DEFAULT_THRESHOLD else s)"
  "tag f = Val s \<Longrightarrow> tag (fuzzyCorrectFilter toLowerCase search t f) =
     Val (if s \<noteq> [] \<and> tags t \<noteq> []
          then fuzzyMatchValue toLowerCase search s (tags t) DEFAULT_THRESHOLD else s)"
  by (simp_all add: fcf_productType fcf_productVendor fcf_tag)

lemma fcf_variantOption_Val:
  "variantOption f = Val vo \<Longrightarrow>
     \<exists>vo'. variantOption (fuzzyCorrectFilter toLowerCase search t f) = Val vo'
           \<and> (variantOptions t = [] \<longrightarrow> vo' = vo)"
  by (simp add: fcf_variantOption Let_def)

lemma fuzzyCorrectFilters_nth:
  "i < length fs \<Longrightarrow>
     fuzzyCorrectFilters toLowerCase search fs (Some t) ! i = fuzzyCorrectFilter toLowerCase search t (fs ! i)"
  by (auto simp: fuzzyCorrectFilters_def)

lemma fuzzyCorrectFilters_length:
  "length (fuzzyCorrectFilters toLowerCase search fs tax) = length fs"
  by (simp add: fuzzyCorrectFilters_def split: option.splits)

lemma fuzzyCorrectFilters_unchanged:
  "tax = None \<or> fs = [] \<Longrightarrow> fuzzyCorrectFilters toLowerCase search fs tax = fs"
  by (auto simp: fuzzyCorrectFilters_def split: option.splits)

lemma variantOption_matched:
  assumes vo: "variantOption f = Val vo" and ne: "variantOptions t \<noteq> []"
    and mn: "matchedName = fuzzyMatchValue toLowerCase search (variant_option.name vo)
                (map option_group.name (variantOptions t)) DEFAULT_THRESHOLD"
    and j: "j < length (variantOptions t)"
    and m: "toLowerCase (option_group.name (variantOptions t ! j)) = toLowerCase matchedName"
    and first: "\<forall>l < j. toLowerCase (option_group.name (variantOptions t ! l))
                  \<noteq> toLowerCase matchedName"
  shows "variantOption (fuzzyCorrectFilter toLowerCase search t f) =
           Val \<lparr>variant_option.name = matchedName,
                variant_option.value =
                  fuzzyMatchValue toLowerCase search (variant_option.value vo)
                    (values (variantOptions t ! j)) DEFAULT_THRESHOLD\<rparr>"
proof -
  have "find (\<lambda>opt. toLowerCase (option_group.name opt) = toLowerCase matchedName)
          (variantOptions t) = Some (variantOptions t ! j)"
    using j m first by (intro find_first) auto
  then show ?thesis
    using vo ne by (simp add: fcf_variantOption Let_def mn [symmetric])
qed

lemma variantOption_unmatched:
  assumes vo: "variantOption f = Val vo" and ne: "variantOptions t \<noteq> []"
    and mn: "matchedName = fuzzyMatchValue toLowerCase search (variant_option.name vo)
                (map option_group.name (variantOptions t)) DEFAULT_THRESHOLD"
    and none: "\<forall>g \<in> set (variantOptions t).
                  toLowerCase (option_group.name g) \<noteq> toLowerCase matchedName"
  shows "variantOption (fuzzyCorrectFilter toLowerCase search t f) =
           Val \<lparr>variant_option.name = matchedName,
                variant_option.value = variant_option.value vo\<rparr>"
proof -
  have "find (\<lambda>opt. toLowerCase (option_group.name opt) = toLowerCase matchedName)
          (variantOptions t) = None"
    using none by (intro find_none) auto
  then show ?thesis
    using vo ne by (simp add: fcf_variantOption Let_def mn [symmetric])
qed

text \<open>
  C3. For a filter whose \<^verbatim>\<open>variantOption\<close> is \<open>vo\<close> and a taxonomy with at least
  one option group, the name is first corrected against the list of all group names,
  giving \<open>matchedName\<close>. The value is then corrected against the values of the
  first group whose name equals \<open>matchedName\<close> up to case, and of no other group;
  when no group name equals \<open>matchedName\<close> up to case the value is left as it was.
  \<^verbatim>\<open>fuzzyCorrectFilters\<close> applies this to every filter of the list. This holds
  for every lowering of strings and every searcher, so for names outside ASCII too.
\<close>

theorem variantOption_two_stage:
  "variantOption f = Val vo \<and> variantOptions t \<noteq> []
     \<and> matchedName = fuzzyMatchValue toLowerCase search (variant_option.name vo)
          (map option_group.name (variantOptions t)) DEFAULT_THRESHOLD \<longrightarrow>
   (j < length (variantOptions t)
      \<and> toLowerCase (option_group.name (variantOptions t ! j)) = toLowerCase matchedName
      \<and> (\<forall>l < j. toLowerCase (option_group.name (variantOptions t ! l))
            \<noteq> toLowerCase matchedName) \<longrightarrow>
      variantOption (fuzzyCorrectFilter toLowerCase search t f) =
        Val \<lparr>variant_option.name = matchedName,
             variant_option.value =
               fuzzyMatchValue toLowerCase search (variant_option.value vo)
                 (values (variantOptions t ! j)) DEFAULT_THRESHOLD\<rparr>)
   \<and> ((\<forall>g \<in> set (variantOptions t).
          toLowerCase (option_group.name g) \<noteq> toLowerCase matchedName) \<longrightarrow>
      variantOption (fuzzyCorrectFilter toLowerCase search t f) =
        Val \<lparr>variant_option.name = matchedName,
             variant_option.value = variant_option.value vo\<rparr>)
   \<and> (\<forall>i < length fs. fs ! i = f \<longrightarrow>
        fuzzyCorrectFilters toLowerCase search fs (Some t) ! i = fuzzyCorrectFilter toLowerCase search t f)"
proof (intro impI conjI allI)
  assume a: "variantOption f = Val vo \<and> variantOptions t \<noteq> []
     \<and> matchedName = fuzzyMatchValue toLowerCase search (variant_option.name vo)
          (map option_group.name (variantOptions t)) DEFAULT_THRESHOLD"
  assume "j < length (variantOptions t)
      \<and> toLowerCase (option_group.name (variantOptions t ! j)) = toLowerCase matchedName
      \<and> (\<forall>l < j. toLowerCase (option_group.name (variantOptions t ! l))
            \<noteq> toLowerCase matchedName)"
  with a show "variantOption (fuzzyCorrectFilter toLowerCase search t f) =
        Val \<lparr>variant_option.name = matchedName,
             variant_option.value =
               fuzzyMatchValue toLowerCase search (variant_option.value vo)
                 (values (variantOptions t ! j)) DEFAULT_THRESHOLD\<rparr>"
    by (intro variantOption_matched) simp_all
next
  assume a: "variantOption f = Val vo \<and> variantOptions t \<noteq> []
     \<and> matchedName = fuzzyMatchValue toLowerCase search (variant_option.name vo)
          (map option_group.name (variantOptions t)) DEFAULT_THRESHOLD"
  assume "\<forall>g \<in> set (variantOptions t).
          toLowerCase (option_group.name g) \<noteq> toLowerCase matchedName"
  with a show "variantOption (fuzzyCorrectFilter toLowerCase search t f) =
        Val \<lparr>variant_option.name = matchedName,
             variant_option.value = variant_option.value vo\<rparr>"
    by (intro variantOption_unmatched) simp_all
next
  fix i
  assume "i < length fs" and "fs ! i = f"
  then show "fuzzyCorrectFilters toLowerCase search fs (Some t) ! i = fuzzyCorrectFilter toLowerCase search t f"
    by (simp add: fuzzyCorrectFilters_nth)
qed

text \<open>
  C10. \<^verbatim>\<open>fuzzyCorrectFilters\<close> returns a list of the same length, and at every
  position the output filter has the same keys (and the same populated keys) as the
  input filter, and the same \<^verbatim>\<open>price\<close> and \<^verbatim>\<open>available\<close>. A dimension that
  is absent or \<^verbatim>\<open>null\<close> stays so. A string dimension with a value keeps a
  value: the corrected one when the string is non-empty and the taxonomy has a
  vocabulary for it, the same string otherwise; a \<^verbatim>\<open>variantOption\<close> stays a
  \<^verbatim>\<open>variantOption\<close>, unchanged when the taxonomy has no option groups. With no
  taxonomy or an empty list the input is returned unchanged.
\<close>

theorem fuzzyCorrectFilters_frame:
  "length (fuzzyCorrectFilters toLowerCase search fs tax) = length fs
   \<and> (\<forall>i < length fs.
        objectKeys (fuzzyCorrectFilters toLowerCase search fs tax ! i) = objectKeys (fs ! i)
        \<and> populatedKeys (fuzzyCorrectFilters toLowerCase search fs tax ! i) = populatedKeys (fs ! i)
        \<and> price (fuzzyCorrectFilters toLowerCase search fs tax ! i) = price (fs ! i)
        \<and> available (fuzzyCorrectFilters toLowerCase search fs tax ! i) = available (fs ! i)
        \<and> ((\<forall>s. productType (fs ! i) \<noteq> Val s) \<longrightarrow>
              productType (fuzzyCorrectFilters toLowerCase search fs tax ! i) = productType (fs ! i))
        \<and> ((\<forall>s. productVendor (fs ! i) \<noteq> Val s) \<longrightarrow>
              productVendor (fuzzyCorrectFilters toLowerCase search fs tax ! i) = productVendor (fs ! i))
        \<and> ((\<forall>s. tag (fs ! i) \<noteq> Val s) \<longrightarrow>
              tag (fuzzyCorrectFilters toLowerCase search fs tax ! i) = tag (fs ! i))
        \<and> ((\<forall>vo. variantOption (fs ! i) \<noteq> Val vo) \<longrightarrow>
              variantOption (fuzzyCorrectFilters toLowerCase search fs tax ! i) = variantOption (fs ! i))
        \<and> (\<forall>t. tax = Some t \<longrightarrow>
              (\<forall>s. productType (fs ! i) = Val s \<longrightarrow>
                 productType (fuzzyCorrectFilters toLowerCase search fs tax ! i) =
                   Val (if s \<noteq> [] \<and> productTypes t \<noteq> []
                        then fuzzyMatchValue toLowerCase search s (productTypes t) DEFAULT_THRESHOLD else s))
              \<and> (\<forall>s. productVendor (fs ! i) = Val s \<longrightarrow>
                 productVendor (fuzzyCorrectFilters toLowerCase search fs tax ! i) =
                   Val (if s \<noteq> [] \<and> vendors t \<noteq> []
                        then fuzzyMatchValue toLowerCase search s (vendors t) DEFAULT_THRESHOLD else s))
              \<and> (\<forall>s. tag (fs ! i) = Val s \<longrightarrow>
                 tag (fuzzyCorrectFilters toLowerCase search fs tax ! i) =
                   Val (if s \<noteq> [] \<and> tags t \<noteq> []
                        then fuzzyMatchValue toLowerCase search s (tags t) DEFAULT_THRESHOLD else s))
              \<and> (\<forall>vo. variantOption (fs ! i) = Val vo \<longrightarrow>
                 (\<exists>vo'. variantOption (fuzzyCorrectFilters toLowerCase search fs tax ! i) = Val vo'
                        \<and> (variantOptions t = [] \<longrightarrow> vo' = vo)))))
   \<and> (tax = None \<or> fs = [] \<longrightarrow> fuzzyCorrectFilters toLowerCase search fs tax = fs)"
proof (intro conjI)
  show "length (fuzzyCorrectFilters toLowerCase search fs tax) = length fs"
    by (rule fuzzyCorrectFilters_length)
  show "tax = None \<or> fs = [] \<longrightarrow> fuzzyCorrectFilters toLowerCase search fs tax = fs"
    by (simp add: fuzzyCorrectFilters_unchanged)
  show "\<forall>i < length fs.
        objectKeys (fuzzyCorrectFilters toLowerCase search fs tax ! i) = objectKeys (fs ! i)
        \<and> populatedKeys (fuzzyCorrectFilters toLowerCase search fs tax ! i) = populatedKeys (fs ! i)
        \<and> price (fuzzyCorrectFilters toLowerCase search fs tax ! i) = price (fs ! i)
        \<and> available (fuzzyCorrectFilters toLowerCase search fs tax ! i) = available (fs ! i)
        \<and> ((\<forall>s. productType (fs ! i) \<noteq> Val s) \<longrightarrow>
              productType (fuzzyCorrectFilters toLowerCase search fs tax ! i) = productType (fs ! i))
        \<and> ((\<forall>s. productVendor (fs ! i) \<noteq> Val s) \<longrightarrow>
              productVendor (fuzzyCorrectFilters toLowerCase search fs tax ! i) = productVendor (fs ! i))
        \<and> ((\<forall>s. tag (fs ! i) \<noteq> Val s) \<longrightarrow>
              tag (fuzzyCorrectFilters toLowerCase search fs tax ! i) = tag (fs ! i))
        \<and> ((\<forall>vo. variantOption (fs ! i) \<noteq> Val vo) \<longrightarrow>
              variantOption (fuzzyCorrectFilters toLowerCase search fs tax ! i) = variantOption (fs ! i))
        \<and> (\<forall>t. tax = Some t \<longrightarrow>
              (\<forall>s. productType (fs ! i) = Val s \<longrightarrow>
                 productType (fuzzyCorrectFilters toLowerCase search fs tax ! i) =
                   Val (if s \<noteq> [] \<and> productTypes t \<noteq> []
                        then fuzzyMatchValue toLowerCase search s (productTypes t) DEFAULT_THRESHOLD else s))
              \<and> (\<forall>s. productVendor (fs ! i) = Val s \<longrightarrow>
                 productVendor (fuzzyCorrectFilters toLowerCase search fs tax ! i) =
                   Val (if s \<noteq> [] \<and> vendors t \<noteq> []
                        then fuzzyMatchValue toLowerCase search s (vendors t) DEFAULT_THRESHOLD else s))
              \<and> (\<forall>s. tag (fs ! i) = Val s \<longrightarrow>
                 tag (fuzzyCorrectFilters toLowerCase search fs tax ! i) =
                   Val (if s \<noteq> [] \<and> tags t \<noteq> []
                        then fuzzyMatchValue toLowerCase search s (tags t) DEFAULT_THRESHOLD else s))
              \<and> (\<forall>vo. variantOption (fs ! i) = Val vo \<longrightarrow>
                 (\<exists>vo'. variantOption (fuzzyCorrectFilters toLowerCase search fs tax ! i) = Val vo'
                        \<and> (variantOptions t = [] \<longrightarrow> vo' = vo))))"
  proof (intro allI impI)
    fix i
    assume i: "i < length fs"
    show "objectKeys (fuzzyCorrectFilters toLowerCase search fs tax ! i) = objectKeys (fs ! i)
        \<and> populatedKeys (fuzzyCorrectFilters toLowerCase search fs tax ! i) = populatedKeys (fs ! i)
        \<and> price (fuzzyCorrectFilters toLowerCase search fs tax ! i) = price (fs ! i)
        \<and> available (fuzzyCorrectFilters toLowerCase search fs tax ! i) = available (fs ! i)
        \<and> ((\<forall>s. productType (fs ! i) \<noteq> Val s) \<longrightarrow>
              productType (fuzzyCorrectFilters toLowerCase search fs tax ! i) = productType (fs ! i))
        \<and> ((\<forall>s. productVendor (fs ! i) \<noteq> Val s) \<longrightarrow>
              productVendor (fuzzyCorrectFilters toLowerCase search fs tax ! i) = productVendor (fs ! i))
        \<and> ((\<forall>s. tag (fs ! i) \<noteq> Val s) \<longrightarrow>
              tag (fuzzyCorrectFilters toLowerCase search fs tax ! i) = tag (fs ! i))
        \<and> ((\<forall>vo. variantOption (fs ! i) \<noteq> Val vo) \<longrightarrow>
              variantOption (fuzzyCorrectFilters toLowerCase search fs tax ! i) = variantOption (fs ! i))
        \<and> (\<forall>t. tax = Some t \<longrightarrow>
              (\<forall>s. productType (fs ! i) = Val s \<longrightarrow>
                 productType (fuzzyCorrectFilters toLowerCase search fs tax ! i) =
                   Val (if s \<noteq> [] \<and> productTypes t \<noteq> []
                        then fuzzyMatchValue toLowerCase search s (productTypes t) DEFAULT_THRESHOLD else s))
              \<and> (\<forall>s. productVendor (fs ! i) = Val s \<longrightarrow>
                 productVendor (fuzzyCorrectFilters toLowerCase search fs tax ! i) =
                   Val (if s \<noteq> [] \<and> vendors t \<noteq> []
                        then fuzzyMatchValue toLowerCase search s (vendors t) DEFAULT_THRESHOLD else s))
              \<and> (\<forall>s. tag (fs ! i) = Val s \<longrightarrow>
                 tag (fuzzyCorrectFilters toLowerCase search fs tax ! i) =
                   Val (if s \<noteq> [] \<and> tags t \<noteq> []
                        then fuzzyMatchValue toLowerCase search s (tags t) DEFAULT_THRESHOLD else s))
              \<and> (\<forall>vo. variantOption (fs ! i) = Val vo \<longrightarrow>
                 (\<exists>vo'. variantOption (fuzzyCorrectFilters toLowerCase search fs tax ! i) = Val vo'
                        \<and> (variantOptions t = [] \<longrightarrow> vo' = vo))))"
    proof (cases tax)
      case None
      then show ?thesis
        by (simp add: fuzzyCorrectFilters_unchanged)
    next
      case (Some t)
      have nth: "fuzzyCorrectFilters toLowerCase search fs (Some t) ! i = fuzzyCorrectFilter toLowerCase search t (fs ! i)"
        using i by (rule fuzzyCorrectFilters_nth)
      show ?thesis
        unfolding Some nth
        by (intro conjI allI impI)
           (simp_all add: fcf_objectKeys fcf_populatedKeys fcf_price fcf_available
              fcf_not_Val fcf_Val fcf_variantOption_Val)
    qed
  qed
qed

lemmas fuzzy_eval = fuzzyMatchValue_def isSubstringMatch_def asciiLowerCase_def lower_char_def Let_def

theorem variantOption_two_stage_witness:
  "variantOption (fuzzyCorrectFilter asciiLowerCase (\<lambda>thr known v. [])
      \<lparr>productTypes = [], vendors = [], tags = [],
       variantOptions = [\<lparr>option_group.name = ''Size'', values = [''Small'', ''Reduced'']\<rparr>,
                         \<lparr>option_group.name = ''Color'', values = [''Dark Red'', ''Blue'']\<rparr>]\<rparr>
      ((emptyFilter :: (char, bound) filterDesc)
         \<lparr>variantOption := Val \<lparr>variant_option.name = ''color'', variant_option.value = ''red''\<rparr>\<rparr>))
     = Val \<lparr>variant_option.name = ''Color'', variant_option.value = ''Dark Red''\<rparr>
   \<and> variantOption (fuzzyCorrectFilter asciiLowerCase (\<lambda>thr known v. [])
      \<lparr>productTypes = [], vendors = [], tags = [],
       variantOptions = [\<lparr>option_group.name = ''Size'', values = [''Small'', ''Reduced'']\<rparr>,
                         \<lparr>option_group.name = ''Color'', values = [''Dark Red'', ''Blue'']\<rparr>]\<rparr>
      ((emptyFilter :: (char, bound) filterDesc)
         \<lparr>variantOption := Val \<lparr>variant_option.name = ''material'', variant_option.value = ''red''\<rparr>\<rparr>))
     = Val \<lparr>variant_option.name = ''material'', variant_option.value = ''red''\<rparr>
   \<and> variantOption (fuzzyCorrectFilter unitsLowerCase (\<lambda>thr known v. [])
      \<lparr>productTypes = [], vendors = [], tags = [],
       variantOptions = [\<lparr>option_group.name = [196, 114, 109, 101, 108],
                          values = [[75, 117, 114, 122], [76, 97, 110, 103]]\<rparr>]\<rparr>
      ((emptyFilter :: (nat, bound) filterDesc)
         \<lparr>variantOption := Val \<lparr>variant_option.name = [228, 114, 109, 101, 108],
                                 variant_option.value = [107, 117, 114, 122]\<rparr>\<rparr>))
     = Val \<lparr>variant_option.name = [196, 114, 109, 101, 108],
            variant_option.value = [75, 117, 114, 122]\<rparr>"
proof -
  let ?S = "(\<lambda>thr known v. []) :: char searcher"
  let ?N = "(\<lambda>thr known v. []) :: nat searcher"
  let ?u = "\<lparr>productTypes = [], vendors = [], tags = [],
       variantOptions = [\<lparr>option_group.name = [196, 114, 109, 101, 108 :: nat],
                          values = [[75, 117, 114, 122], [76, 97, 110, 103]]\<rparr>]\<rparr>"
  let ?vo3 = "\<lparr>variant_option.name = [228, 114, 109, 101, 108 :: nat],
              variant_option.value = [107, 117, 114, 122]\<rparr>"
  let ?f3 = "(emptyFilter :: (nat, bound) filterDesc)\<lparr>variantOption := Val ?vo3\<rparr>"
  let ?t = "\<lparr>productTypes = [], vendors = [], tags = [],
       variantOptions = [\<lparr>option_group.name = ''Size'', values = [''Small'', ''Reduced'']\<rparr>,
                         \<lparr>option_group.name = ''Color'', values = [''Dark Red'', ''Blue'']\<rparr>]\<rparr>"
  let ?vo1 = "\<lparr>variant_option.name = ''color'', variant_option.value = ''red''\<rparr>"
  let ?vo2 = "\<lparr>variant_option.name = ''material'', variant_option.value = ''red''\<rparr>"
  let ?f1 = "(emptyFilter :: (char, bound) filterDesc)\<lparr>variantOption := Val ?vo1\<rparr>"
  let ?f2 = "(emptyFilter :: (char, bound) filterDesc)\<lparr>variantOption := Val ?vo2\<rparr>"
  have m1: "''Color'' = fuzzyMatchValue asciiLowerCase ?S (variant_option.name ?vo1)
      (map option_group.name (variantOptions ?t)) DEFAULT_THRESHOLD"
    by (simp add: fuzzy_eval)
  have m2: "''material'' = fuzzyMatchValue asciiLowerCase ?S (variant_option.name ?vo2)
      (map option_group.name (variantOptions ?t)) DEFAULT_THRESHOLD"
    by (simp add: fuzzy_eval)
  have h1: "variantOption ?f1 = Val ?vo1 \<and> variantOptions ?t \<noteq> []
      \<and> ''Color'' = fuzzyMatchValue asciiLowerCase ?S (variant_option.name ?vo1)
          (map option_group.name (variantOptions ?t)) DEFAULT_THRESHOLD"
    using m1 by simp
  have h2: "variantOption ?f2 = Val ?vo2 \<and> variantOptions ?t \<noteq> []
      \<and> ''material'' = fuzzyMatchValue asciiLowerCase ?S (variant_option.name ?vo2)
          (map option_group.name (variantOptions ?t)) DEFAULT_THRESHOLD"
    using m2 by simp
  have g1: "1 < length (variantOptions ?t)
      \<and> asciiLowerCase (option_group.name (variantOptions ?t ! 1)) = asciiLowerCase ''Color''
      \<and> (\<forall>l < 1. asciiLowerCase (option_group.name (variantOptions ?t ! l))
            \<noteq> asciiLowerCase ''Color'')"
    by (simp add: asciiLowerCase_def lower_char_def)
  have g2: "\<forall>g \<in> set (variantOptions ?t).
      asciiLowerCase (option_group.name g) \<noteq> asciiLowerCase ''material''"
    by (simp add: asciiLowerCase_def lower_char_def)
  have "variantOption (fuzzyCorrectFilter asciiLowerCase ?S ?t ?f1) =
      Val \<lparr>variant_option.name = ''Color'',
           variant_option.value = fuzzyMatchValue asciiLowerCase ?S (variant_option.value ?vo1)
              (values (variantOptions ?t ! 1)) DEFAULT_THRESHOLD\<rparr>"
    using variantOption_two_stage [where f = ?f1 and vo = ?vo1 and t = ?t and search = ?S
        and toLowerCase = asciiLowerCase
        and matchedName = "''Color''" and j = 1 and fs = "[]", THEN mp, OF h1,
        THEN conjunct1, THEN mp, OF g1] .
  then have r1: "variantOption (fuzzyCorrectFilter asciiLowerCase ?S ?t ?f1) =
      Val \<lparr>variant_option.name = ''Color'', variant_option.value = ''Dark Red''\<rparr>"
    by (simp add: fuzzy_eval)
  have r2: "variantOption (fuzzyCorrectFilter asciiLowerCase ?S ?t ?f2) =
      Val \<lparr>variant_option.name = ''material'',
           variant_option.value = variant_option.value ?vo2\<rparr>"
    using variantOption_two_stage [where f = ?f2 and vo = ?vo2 and t = ?t and search = ?S
        and toLowerCase = asciiLowerCase
        and matchedName = "''material''" and j = 0 and fs = "[]", THEN mp, OF h2,
        THEN conjunct2, THEN conjunct1, THEN mp, OF g2] .
  have m3: "[196, 114, 109, 101, 108] = fuzzyMatchValue unitsLowerCase ?N (variant_option.name ?vo3)
      (map option_group.name (variantOptions ?u)) DEFAULT_THRESHOLD"
    by (simp add: units_eval)
  have h3: "variantOption ?f3 = Val ?vo3 \<and> variantOptions ?u \<noteq> []
      \<and> [196, 114, 109, 101, 108] = fuzzyMatchValue unitsLowerCase ?N (variant_option.name ?vo3)
          (map option_group.name (variantOptions ?u)) DEFAULT_THRESHOLD"
    using m3 by simp
  have g3: "0 < length (variantOptions ?u)
      \<and> unitsLowerCase (option_group.name (variantOptions ?u ! 0))
          = unitsLowerCase [196, 114, 109, 101, 108]
      \<and> (\<forall>l < 0. unitsLowerCase (option_group.name (variantOptions ?u ! l))
            \<noteq> unitsLowerCase [196, 114, 109, 101, 108])"
    by simp
  have "variantOption (fuzzyCorrectFilter unitsLowerCase ?N ?u ?f3) =
      Val \<lparr>variant_option.name = [196, 114, 109, 101, 108],
           variant_option.value = fuzzyMatchValue unitsLowerCase ?N (variant_option.value ?vo3)
              (values (variantOptions ?u ! 0)) DEFAULT_THRESHOLD\<rparr>"
    using variantOption_two_stage [where f = ?f3 and vo = ?vo3 and t = ?u and search = ?N
        and toLowerCase = unitsLowerCase
        and matchedName = "[196, 114, 109, 101, 108]" and j = 0 and fs = "[]", THEN mp, OF h3,
        THEN conjunct1, THEN mp, OF g3] .
  then have r3: "variantOption (fuzzyCorrectFilter unitsLowerCase ?N ?u ?f3) =
      Val \<lparr>variant_option.name = [196, 114, 109, 101, 108],
           variant_option.value = [75, 117, 114, 122]\<rparr>"
    by (simp add: units_eval)
  show ?thesis
    using r1 r2 r3 by simp
qed

theorem fuzzyCorrectFilters_frame_witness:
  "length (fuzzyCorrectFilters asciiLowerCase (\<lambda>thr known v. [])
      [\<lparr>productType = Val ''glasses'', productVendor = Val ''nike'', tag = Null,
        available = Val True,
        price = Val \<lparr>min_bound = Some (BNum 10), max_bound = None\<rparr>,
        variantOption = Absent\<rparr>]
      (Some \<lparr>productTypes = [''Hats'', ''Sunglasses''], vendors = [], tags = [''sale''],
             variantOptions = []\<rparr>)) = 1
   \<and> fuzzyCorrectFilters asciiLowerCase (\<lambda>thr known v. [])
      [\<lparr>productType = Val ''glasses'', productVendor = Val ''nike'', tag = Null,
        available = Val True,
        price = Val \<lparr>min_bound = Some (BNum 10), max_bound = None\<rparr>,
        variantOption = Absent\<rparr>]
      (Some \<lparr>productTypes = [''Hats'', ''Sunglasses''], vendors = [], tags = [''sale''],
             variantOptions = []\<rparr>) ! 0
     = \<lparr>productType = Val ''Sunglasses'', productVendor = Val ''nike'', tag = Null,
        available = Val True,
        price = Val \<lparr>min_bound = Some (BNum 10), max_bound = None\<rparr>,
        variantOption = Absent\<rparr>"
proof -
  let ?S = "(\<lambda>thr known v. []) :: char searcher"
  let ?f = "\<lparr>productType = Val ''glasses'', productVendor = Val ''nike'', tag = Null,
        available = Val True,
        price = Val \<lparr>min_bound = Some (BNum 10), max_bound = None\<rparr>,
        variantOption = Absent\<rparr>"
  let ?t = "\<lparr>productTypes = [''Hats'', ''Sunglasses''], vendors = [], tags = [''sale''],
             variantOptions = []\<rparr>"
  let ?out = "fuzzyCorrectFilters asciiLowerCase ?S [?f] (Some ?t)"
  note inst = fuzzyCorrectFilters_frame [where toLowerCase = asciiLowerCase and search = ?S
      and fs = "[?f]" and tax = "Some ?t"]
  have len: "length ?out = 1"
    using inst [THEN conjunct1] by simp
  have i: "0 < length [?f]"
    by simp
  note at0 = inst [THEN conjunct2, THEN conjunct1, rule_format, OF i]
  have p: "price (?out ! 0) = price ?f" and a: "available (?out ! 0) = available ?f"
    using at0 by simp_all
  have tg: "tag (?out ! 0) = Null"
    using at0 by simp
  have vo: "variantOption (?out ! 0) = Absent"
    using at0 by simp
  have pv: "productVendor (?out ! 0) = Val ''nike''"
    using at0 by simp
  have pt: "productType (?out ! 0) = Val ''Sunglasses''"
    using at0 by (simp add: fuzzy_eval)
  have "?out ! 0 = \<lparr>productType = Val ''Sunglasses'', productVendor = Val ''nike'', tag = Null,
        available = Val True,
        price = Val \<lparr>min_bound = Some (BNum 10), max_bound = None\<rparr>,
        variantOption = Absent\<rparr>"
    using p a tg vo pv pt by (cases "?out ! 0") simp
  then show ?thesis
    using len by simp
qed

section \<open>Properties of the resolution engine\<close>

lemma populatedKeys_price:
  assumes "price f = Val p"
  shows "length (populatedKeys f) \<ge> 1"
    and "length (populatedKeys f) = 1 \<longleftrightarrow> populatedKeys f = [''price'']"
    and "length (populatedKeys f) = 1 \<Longrightarrow> populatedKeys f ! 0 = ''price''"
  using assms by (simp_all add: populatedKeys_def)

lemma collect_step:
  "collect (ps, nps) f =
     (ps @ (case price f of Val p \<Rightarrow> [p] | _ \<Rightarrow> []),
      nps @ (case price f of
               Val p \<Rightarrow> if populatedKeys f = [''price''] then [] else [f\<lparr>price := Absent\<rparr>]
             | _ \<Rightarrow> [f]))"
proof (cases "price f")
  case (Val p)
  note k = populatedKeys_price [OF Val]
  show ?thesis
  proof (cases "length (populatedKeys f) = 1")
    case True
    then show ?thesis
      using k Val by (simp add: collect_def Let_def)
  next
    case False
    then have "length (populatedKeys f) > 1"
      using k(1) by linarith
    then show ?thesis
      using k False Val by (simp add: collect_def Let_def)
  qed
qed (simp_all add: collect_def Let_def)

lemma foldl_collect:
  "foldl collect (ps, nps) fs = (ps @ spec_priceObjects fs, nps @ spec_nonPriceFilters fs)"
proof (induction fs arbitrary: ps nps)
  case Nil
  then show ?case by (simp add: spec_priceObjects_def spec_nonPriceFilters_def)
next
  case (Cons f fs)
  show ?case
    unfolding foldl_Cons collect_step Cons.IH
    by (simp add: spec_priceObjects_def spec_nonPriceFilters_def)
qed

lemma mergePrice_min:
  "min_bound (mergePrice m p) =
     (case min_bound p of
        Some x \<Rightarrow> (case min_bound m of
                     None \<Rightarrow> Some x
                   | Some a \<Rightarrow> if toNumber x < toNumber a then Some x else Some a)
      | None \<Rightarrow> min_bound m)"
  by (simp add: mergePrice_def Let_def split: option.splits)

lemma mergePrice_max:
  "max_bound (mergePrice m p) =
     (case max_bound p of
        Some x \<Rightarrow> (case max_bound m of
                     None \<Rightarrow> Some x
                   | Some a \<Rightarrow> if toNumber x > toNumber a then Some x else Some a)
      | None \<Rightarrow> max_bound m)"
  by (simp add: mergePrice_def Let_def split: option.splits)

lemma foldl_mergePrice_min:
  "case min_bound (foldl mergePrice m ps) of
     None \<Rightarrow> min_bound m = None \<and> spec_mins ps = []
   | Some r \<Rightarrow> r \<in> set (opt_list (min_bound m) @ spec_mins ps)
              \<and> (\<forall>x \<in> set (opt_list (min_bound m) @ spec_mins ps). toNumber r \<le> toNumber x)"
proof (induction ps arbitrary: m)
  case Nil
  then show ?case
    by (cases "min_bound m") (simp_all add: spec_mins_def)
next
  case (Cons p ps)
  have split: "spec_mins (p # ps) = opt_list (min_bound p) @ spec_mins ps"
    by (cases "min_bound p") (simp_all add: spec_mins_def)
  show ?case
    using Cons.IH [of "mergePrice m p"]
    unfolding foldl_Cons split mergePrice_min
    by (cases "min_bound p"; cases "min_bound m")
       (auto split: option.splits if_splits)
qed

lemma foldl_mergePrice_max:
  "case max_bound (foldl mergePrice m ps) of
     None \<Rightarrow> max_bound m = None \<and> spec_maxs ps = []
   | Some r \<Rightarrow> r \<in> set (opt_list (max_bound m) @ spec_maxs ps)
              \<and> (\<forall>x \<in> set (opt_list (max_bound m) @ spec_maxs ps). toNumber x \<le> toNumber r)"
proof (induction ps arbitrary: m)
  case Nil
  then show ?case
    by (cases "max_bound m") (simp_all add: spec_maxs_def)
next
  case (Cons p ps)
  have split: "spec_maxs (p # ps) = opt_list (max_bound p) @ spec_maxs ps"
    by (cases "max_bound p") (simp_all add: spec_maxs_def)
  show ?case
    using Cons.IH [of "mergePrice m p"]
    unfolding foldl_Cons split mergePrice_max
    by (cases "max_bound p"; cases "max_bound m")
       (auto split: option.splits if_splits)
qed

lemma mergeFilters_shape:
  "mergeFilters fs =
     spec_nonPriceFilters fs @
       (if spec_mins (spec_priceObjects fs) = [] \<and> spec_maxs (spec_priceObjects fs) = [] then []
        else [emptyFilter\<lparr>price := Val (foldl mergePrice \<lparr>min_bound = None, max_bound = None\<rparr>
                                          (spec_priceObjects fs))\<rparr>])"
proof -
  let ?ps = "spec_priceObjects fs"
  let ?m = "foldl mergePrice \<lparr>min_bound = None, max_bound = None\<rparr> ?ps"
  have c: "foldl collect ([], []) fs = (?ps, spec_nonPriceFilters fs)"
    using foldl_collect [of "[]" "[]" fs] by simp
  have mn: "min_bound ?m = None \<longleftrightarrow> spec_mins ?ps = []"
    using foldl_mergePrice_min [of "\<lparr>min_bound = None, max_bound = None\<rparr>" ?ps]
    by (auto split: option.splits)
  have mx: "max_bound ?m = None \<longleftrightarrow> spec_maxs ?ps = []"
    using foldl_mergePrice_max [of "\<lparr>min_bound = None, max_bound = None\<rparr>" ?ps]
    by (auto split: option.splits)
  have e: "?ps = [] \<Longrightarrow> spec_mins ?ps = [] \<and> spec_maxs ?ps = []"
    by (simp add: spec_mins_def spec_maxs_def)
  show ?thesis
    unfolding mergeFilters_def c using mn mx e by (auto simp: Let_def)
qed

lemma least_numeric:
  assumes "m \<in> set xs" and "\<forall>x \<in> set xs. toNumber m \<le> toNumber x"
    and "\<forall>x \<in> set xs. \<exists>r. x = BNum r"
  shows "m = BNum (Min (toNumber ` set xs))"
proof -
  have "Min (toNumber ` set xs) = toNumber m"
    using assms(1,2) by (intro Min_eqI) auto
  moreover obtain r where "m = BNum r"
    using assms(1,3) by blast
  ultimately show ?thesis
    by simp
qed

lemma greatest_numeric:
  assumes "m \<in> set xs" and "\<forall>x \<in> set xs. toNumber x \<le> toNumber m"
    and "\<forall>x \<in> set xs. \<exists>r. x = BNum r"
  shows "m = BNum (Max (toNumber ` set xs))"
proof -
  have "Max (toNumber ` set xs) = toNumber m"
    using assms(1,2) by (intro Max_eqI) auto
  moreover obtain r where "m = BNum r"
    using assms(1,3) by blast
  ultimately show ?thesis
    by simp
qed

lemma merged_props:
  fixes ps :: "bound price_range list"
  defines "merged \<equiv> foldl mergePrice \<lparr>min_bound = None, max_bound = None\<rparr> ps"
  shows "(case min_bound merged of
            None \<Rightarrow> spec_mins ps = []
          | Some m \<Rightarrow> m \<in> set (spec_mins ps)
                      \<and> (\<forall>x \<in> set (spec_mins ps). toNumber m \<le> toNumber x))"
    and "(case max_bound merged of
            None \<Rightarrow> spec_maxs ps = []
          | Some m \<Rightarrow> m \<in> set (spec_maxs ps)
                      \<and> (\<forall>x \<in> set (spec_maxs ps). toNumber x \<le> toNumber m))"
    and "spec_mins ps \<noteq> [] \<and> (\<forall>x \<in> set (spec_mins ps). \<exists>r. x = BNum r) \<longrightarrow>
           min_bound merged = Some (BNum (Min (toNumber ` set (spec_mins ps))))"
    and "spec_maxs ps \<noteq> [] \<and> (\<forall>x \<in> set (spec_maxs ps). \<exists>r. x = BNum r) \<longrightarrow>
           max_bound merged = Some (BNum (Max (toNumber ` set (spec_maxs ps))))"
proof -
  show a: "(case min_bound merged of
            None \<Rightarrow> spec_mins ps = []
          | Some m \<Rightarrow> m \<in> set (spec_mins ps)
                      \<and> (\<forall>x \<in> set (spec_mins ps). toNumber m \<le> toNumber x))"
    using foldl_mergePrice_min [of "\<lparr>min_bound = None, max_bound = None\<rparr>" ps]
    unfolding merged_def by (simp split: option.splits)
  show b: "(case max_bound merged of
            None \<Rightarrow> spec_maxs ps = []
          | Some m \<Rightarrow> m \<in> set (spec_maxs ps)
                      \<and> (\<forall>x \<in> set (spec_maxs ps). toNumber x \<le> toNumber m))"
    using foldl_mergePrice_max [of "\<lparr>min_bound = None, max_bound = None\<rparr>" ps]
    unfolding merged_def by (simp split: option.splits)
  show "spec_mins ps \<noteq> [] \<and> (\<forall>x \<in> set (spec_mins ps). \<exists>r. x = BNum r) \<longrightarrow>
           min_bound merged = Some (BNum (Min (toNumber ` set (spec_mins ps))))"
  proof
    assume h: "spec_mins ps \<noteq> [] \<and> (\<forall>x \<in> set (spec_mins ps). \<exists>r. x = BNum r)"
    then obtain m where m: "min_bound merged = Some m"
      using a by (cases "min_bound merged") auto
    then have "m = BNum (Min (toNumber ` set (spec_mins ps)))"
      using a h by (intro least_numeric) auto
    then show "min_bound merged = Some (BNum (Min (toNumber ` set (spec_mins ps))))"
      using m by simp
  qed
  show "spec_maxs ps \<noteq> [] \<and> (\<forall>x \<in> set (spec_maxs ps). \<exists>r. x = BNum r) \<longrightarrow>
           max_bound merged = Some (BNum (Max (toNumber ` set (spec_maxs ps))))"
  proof
    assume h: "spec_maxs ps \<noteq> [] \<and> (\<forall>x \<in> set (spec_maxs ps). \<exists>r. x = BNum r)"
    then obtain m where m: "max_bound merged = Some m"
      using b by (cases "max_bound merged") auto
    then have "m = BNum (Max (toNumber ` set (spec_maxs ps)))"
      using b h by (intro greatest_numeric) auto
    then show "max_bound merged = Some (BNum (Max (toNumber ` set (spec_maxs ps))))"
      using m by simp
  qed
qed

lemmas merge_eval = mergeFilters_def collect_def mergePrice_def populatedKeys_def
  emptyFilter_def Let_def

lemma mergeFilters_example:
  "mergeFilters
     [emptyFilter\<lparr>price := Val \<lparr>min_bound = Some (BNum 20), max_bound = None\<rparr>\<rparr>,
      emptyFilter\<lparr>price := Val \<lparr>min_bound = None, max_bound = Some (BNum 80)\<rparr>\<rparr>]
   = [emptyFilter\<lparr>price := Val \<lparr>min_bound = Some (BNum 20), max_bound = Some (BNum 80)\<rparr>\<rparr>]"
  by (simp add: merge_eval)

text \<open>
  C2. For every filter list, \<^verbatim>\<open>mergeFilters\<close> returns the non-price filters in
  their order (price-only filters removed, a mixed filter with only its
  \<^verbatim>\<open>price\<close> key removed) followed, when any price sub-object of the list has a
  bound, by exactly one filter that holds only the merged price range. The merged
  \<open>min\<close> is one of the present mins and no present min is smaller; the merged
  \<open>max\<close> is one of the present maxes and no present max is greater (bounds are
  compared as numbers, which is how \<^verbatim>\<open><\<close> and \<^verbatim>\<open>>\<close> compare them). When the
  bounds are numbers, the merged \<open>min\<close> is the minimum of the mins and the merged
  \<open>max\<close> the maximum of the maxes. The two filters \<^verbatim>\<open>{price:{min:20}}\<close> and
  \<^verbatim>\<open>{price:{max:80}}\<close> merge into the single filter \<^verbatim>\<open>{price:{min:20,max:80}}\<close>.
\<close>

theorem mergeFilters_price:
  "(\<exists>merged.
      mergeFilters fs =
        spec_nonPriceFilters fs @
          (if spec_mins (spec_priceObjects fs) = [] \<and> spec_maxs (spec_priceObjects fs) = []
           then [] else [emptyFilter\<lparr>price := Val merged\<rparr>])
      \<and> (case min_bound merged of
            None \<Rightarrow> spec_mins (spec_priceObjects fs) = []
          | Some m \<Rightarrow> m \<in> set (spec_mins (spec_priceObjects fs))
                      \<and> (\<forall>x \<in> set (spec_mins (spec_priceObjects fs)). toNumber m \<le> toNumber x))
      \<and> (case max_bound merged of
            None \<Rightarrow> spec_maxs (spec_priceObjects fs) = []
          | Some m \<Rightarrow> m \<in> set (spec_maxs (spec_priceObjects fs))
                      \<and> (\<forall>x \<in> set (spec_maxs (spec_priceObjects fs)). toNumber x \<le> toNumber m))
      \<and> (spec_mins (spec_priceObjects fs) \<noteq> []
            \<and> (\<forall>x \<in> set (spec_mins (spec_priceObjects fs)). \<exists>r. x = BNum r) \<longrightarrow>
          min_bound merged =
            Some (BNum (Min (toNumber ` set (spec_mins (spec_priceObjects fs))))))
      \<and> (spec_maxs (spec_priceObjects fs) \<noteq> []
            \<and> (\<forall>x \<in> set (spec_maxs (spec_priceObjects fs)). \<exists>r. x = BNum r) \<longrightarrow>
          max_bound merged =
            Some (BNum (Max (toNumber ` set (spec_maxs (spec_priceObjects fs)))))))
   \<and> mergeFilters
        [emptyFilter\<lparr>price := Val \<lparr>min_bound = Some (BNum 20), max_bound = None\<rparr>\<rparr>,
         emptyFilter\<lparr>price := Val \<lparr>min_bound = None, max_bound = Some (BNum 80)\<rparr>\<rparr>]
      = [emptyFilter\<lparr>price := Val \<lparr>min_bound = Some (BNum 20), max_bound = Some (BNum 80)\<rparr>\<rparr>]"
proof (intro conjI exI [where x = "foldl mergePrice \<lparr>min_bound = None, max_bound = None\<rparr>
    (spec_priceObjects fs)"])
  show "mergeFilters fs =
        spec_nonPriceFilters fs @
          (if spec_mins (spec_priceObjects fs) = [] \<and> spec_maxs (spec_priceObjects fs) = []
           then [] else [emptyFilter\<lparr>price := Val (foldl mergePrice
              \<lparr>min_bound = None, max_bound = None\<rparr> (spec_priceObjects fs))\<rparr>])"
    by (rule mergeFilters_shape)
qed (rule merged_props mergeFilters_example)+

theorem mergeFilters_price_witness:
  "mergeFilters
     [emptyFilter\<lparr>productType := Val ''Shoes'',
                  price := Val \<lparr>min_bound = Some (BNum 30), max_bound = Some (BNum 60)\<rparr>\<rparr>,
      emptyFilter\<lparr>price := Val \<lparr>min_bound = Some (BNum 20), max_bound = None\<rparr>\<rparr>,
      emptyFilter\<lparr>price := Val \<lparr>min_bound = None, max_bound = Some (BNum 80)\<rparr>\<rparr>,
      emptyFilter\<lparr>tag := Val ''sale''\<rparr>]
   = [emptyFilter\<lparr>productType := Val ''Shoes''\<rparr>,
      emptyFilter\<lparr>tag := Val ''sale''\<rparr>,
      emptyFilter\<lparr>price := Val \<lparr>min_bound = Some (BNum 20), max_bound = Some (BNum 80)\<rparr>\<rparr>]"
proof -
  let ?fs = "[emptyFilter\<lparr>productType := Val ''Shoes'',
                  price := Val \<lparr>min_bound = Some (BNum 30), max_bound = Some (BNum 60)\<rparr>\<rparr>,
      emptyFilter\<lparr>price := Val \<lparr>min_bound = Some (BNum 20), max_bound = None\<rparr>\<rparr>,
      emptyFilter\<lparr>price := Val \<lparr>min_bound = None, max_bound = Some (BNum 80)\<rparr>\<rparr>,
      emptyFilter\<lparr>tag := Val ''sale''\<rparr>] :: (char, bound) filterDesc list"
  have po: "spec_priceObjects ?fs =
      [\<lparr>min_bound = Some (BNum 30), max_bound = Some (BNum 60)\<rparr>,
       \<lparr>min_bound = Some (BNum 20), max_bound = None\<rparr>,
       \<lparr>min_bound = None, max_bound = Some (BNum 80)\<rparr>]"
    by (simp add: spec_priceObjects_def emptyFilter_def)
  have mins: "spec_mins (spec_priceObjects ?fs) = [BNum 30, BNum 20]"
    and maxs: "spec_maxs (spec_priceObjects ?fs) = [BNum 60, BNum 80]"
    unfolding po by (simp_all add: spec_mins_def spec_maxs_def)
  have np: "spec_nonPriceFilters ?fs =
      [emptyFilter\<lparr>productType := Val ''Shoes''\<rparr>, emptyFilter\<lparr>tag := Val ''sale''\<rparr>]"
    by (simp add: spec_nonPriceFilters_def emptyFilter_def populatedKeys_def)
  from mergeFilters_price [of ?fs, THEN conjunct1]
  obtain merged where
    eq: "mergeFilters ?fs = spec_nonPriceFilters ?fs @
          (if spec_mins (spec_priceObjects ?fs) = [] \<and> spec_maxs (spec_priceObjects ?fs) = []
           then [] else [emptyFilter\<lparr>price := Val merged\<rparr>])"
    and mn: "spec_mins (spec_priceObjects ?fs) \<noteq> []
            \<and> (\<forall>x \<in> set (spec_mins (spec_priceObjects ?fs)). \<exists>r. x = BNum r) \<longrightarrow>
          min_bound merged =
            Some (BNum (Min (toNumber ` set (spec_mins (spec_priceObjects ?fs)))))"
    and mx: "spec_maxs (spec_priceObjects ?fs) \<noteq> []
            \<and> (\<forall>x \<in> set (spec_maxs (spec_priceObjects ?fs)). \<exists>r. x = BNum r) \<longrightarrow>
          max_bound merged =
            Some (BNum (Max (toNumber ` set (spec_maxs (spec_priceObjects ?fs)))))"
    by blast
  have "min_bound merged = Some (BNum 20)"
    using mn unfolding mins by simp
  moreover have "max_bound merged = Some (BNum 80)"
    using mx unfolding maxs by simp
  ultimately have "merged = \<lparr>min_bound = Some (BNum 20), max_bound = Some (BNum 80)\<rparr>"
    by (cases merged) simp
  then show ?thesis
    using eq unfolding np mins by simp
qed

lemmas sanitize_eval = sanitizeFilters_def sanitizeFilter_def coerceBound_def objectKeys_def
  emptyFilter_def Let_def

text \<open>
  C1. \<^verbatim>\<open>sanitizeFilters\<close> at inputs where it does not do what its comment
  promises (\<^verbatim>\<open>ensure price is numeric ... remove empties\<close>): a \<^verbatim>\<open>null\<close> or
  boolean price bound is neither a string nor \<^verbatim>\<open>NaN\<close> for \<^verbatim>\<open>isNaN\<close>, so it
  stays in the sanitized price as it is; and a filter whose only key holds
  \<^verbatim>\<open>null\<close> has one key for \<^verbatim>\<open>Object.keys\<close>, so it is kept although no
  dimension of it is populated.
\<close>

theorem sanitizeFilters_null_bound:
  "sanitizeFilters (\<lambda>s. NaN)
      [emptyFilter\<lparr>price := Val \<lparr>min_bound = Some RNull, max_bound = Some (RNum (Num 50))\<rparr>\<rparr>]
     = [emptyFilter\<lparr>price := Val \<lparr>min_bound = Some BNull, max_bound = Some (BNum 50)\<rparr>\<rparr>]
   \<and> sanitizeFilters (\<lambda>s. NaN)
      [emptyFilter\<lparr>price := Val \<lparr>min_bound = Some (RBool True), max_bound = None\<rparr>\<rparr>]
     = [emptyFilter\<lparr>price := Val \<lparr>min_bound = Some (BBool True), max_bound = None\<rparr>\<rparr>]
   \<and> sanitizeFilters (\<lambda>s. NaN) [emptyFilter\<lparr>tag := Null\<rparr>] = [emptyFilter\<lparr>tag := Null\<rparr>]
   \<and> populatedKeys ((emptyFilter :: (char, bound) filterDesc)\<lparr>tag := Null\<rparr>) = []"
  by (simp add: sanitize_eval populatedKeys_def)

text \<open>
  What \<^verbatim>\<open>sanitizeFilters\<close> does establish: the example of the specification, for
  any \<^verbatim>\<open>parseFloat\<close> that reads the two strings as 50 and 10; and for a price whose
  bounds are absent, numbers or strings, a sanitized price that is dropped when no
  bound is left and otherwise holds only numbers, with \<open>min \<le> max\<close> when both are
  there.
\<close>

lemma sanitizeFilters_example:
  assumes "parseFloat ''50'' = Num 50" and "parseFloat ''10'' = Num 10"
  shows "sanitizeFilters parseFloat
           [emptyFilter\<lparr>price := Val \<lparr>min_bound = Some (RStr ''50''),
                                      max_bound = Some (RStr ''10'')\<rparr>\<rparr>]
         = [emptyFilter\<lparr>price := Val \<lparr>min_bound = Some (BNum 10),
                                       max_bound = Some (BNum 50)\<rparr>\<rparr>]"
  using assms by (simp add: sanitize_eval)

lemma coerceBound_numeric:
  "number_or_string x \<Longrightarrow> coerceBound parseFloat x = Some b \<Longrightarrow> \<exists>r. b = BNum r"
  by (cases x rule: number_or_string.cases)
     (auto simp: coerceBound_def split: number.splits)

lemma sanitizeFilter_numeric:
  assumes "price f = Val p" and "number_or_string (min_bound p)" and "number_or_string (max_bound p)"
  shows "case price (sanitizeFilter parseFloat f) of
           Absent \<Rightarrow> coerceBound parseFloat (min_bound p) = None
                      \<and> coerceBound parseFloat (max_bound p) = None
         | Null \<Rightarrow> False
         | Val q \<Rightarrow>
             (min_bound q \<noteq> None \<or> max_bound q \<noteq> None)
             \<and> (\<forall>b. min_bound q = Some b \<or> max_bound q = Some b \<longrightarrow> (\<exists>r. b = BNum r))
             \<and> (\<forall>a b. min_bound q = Some a \<and> max_bound q = Some b \<longrightarrow> toNumber a \<le> toNumber b)"
proof -
  let ?mn = "coerceBound parseFloat (min_bound p)"
  let ?mx = "coerceBound parseFloat (max_bound p)"
  have n1: "\<And>b. ?mn = Some b \<Longrightarrow> \<exists>r. b = BNum r"
    using assms(2) by (rule coerceBound_numeric)
  have n2: "\<And>b. ?mx = Some b \<Longrightarrow> \<exists>r. b = BNum r"
    using assms(3) by (rule coerceBound_numeric)
  show ?thesis
  proof (cases ?mn)
    case None
    then show ?thesis
      using assms(1) n2 by (cases ?mx) (auto simp: sanitizeFilter_def Let_def)
  next
    case mn: (Some a)
    show ?thesis
    proof (cases ?mx)
      case None
      then show ?thesis
        using assms(1) n1 mn by (auto simp: sanitizeFilter_def Let_def)
    next
      case mx: (Some b)
      show ?thesis
        using assms(1) n1 [OF mn] n2 [OF mx] mn mx
        by (auto simp: sanitizeFilter_def Let_def)
    qed
  qed
qed







end
